theory Spec2Isabelle
  imports Main "HOL-Library.Multiset"
begin

section \<open>JavaScript values and strings\<close>

text \<open>
  A value that a \<^verbatim>\<open>throw\<close> or a rejected promise carries. The handlers of the
  repository only ask \<^verbatim>\<open>error instanceof Error ? error.message : default\<close>, so a
  thrown value is either an \<^verbatim>\<open>Error\<close> with its message or something else.
\<close>

datatype thrown = JsError string | NonError

fun message_or :: "thrown \<Rightarrow> string \<Rightarrow> string" where
  "message_or (JsError m) d = m"
| "message_or NonError d = d"

text \<open>
  An optional string read from the outside (an environment variable, a form field, a
  JSON property): \<open>None\<close> is \<^verbatim>\<open>undefined\<close>/\<^verbatim>\<open>null\<close>. It is falsy when absent
  or empty; \<open>a || b\<close> on strings is \<open>or_else\<close>.
\<close>

fun truthy :: "string option \<Rightarrow> bool" where
  "truthy None = False"
| "truthy (Some s) = (s \<noteq> [])"

fun or_else :: "string option \<Rightarrow> string \<Rightarrow> string" where
  "or_else None d = d"
| "or_else (Some s) d = (if s = [] then d else s)"

fun or_opt :: "string option \<Rightarrow> string option \<Rightarrow> string option" where
  "or_opt None b = b"
| "or_opt (Some s) b = (if s = [] then b else Some s)"

definition startsWith :: "string \<Rightarrow> string \<Rightarrow> bool" where
  "startsWith s p = (take (length p) s = p)"

fun includes_str :: "string \<Rightarrow> string \<Rightarrow> bool" where
  "includes_str [] p = (p = [])"
| "includes_str (c # cs) p = (startsWith (c # cs) p \<or> includes_str cs p)"

definition digit :: "nat \<Rightarrow> char" where
  "digit n = ''0123456789'' ! (n mod 10)"

fun string_of_nat :: "nat \<Rightarrow> string" where
  "string_of_nat n =
     (if n < 10 then [digit n] else string_of_nat (n div 10) @ [digit n])"

declare string_of_nat.simps [simp del]

section \<open>The provider adapter (src/lib/watermark-api.ts)\<close>

record ApiSettings =
  provider :: string
  apiKey :: string
  endpoint :: "string option"

record WatermarkRemovalResult =
  success :: bool
  processedImageUrl :: "string option"
  error :: "string option"
  jobId :: "string option"

text \<open>
  What one \<^verbatim>\<open>fetch\<close> gives back when it does not reject. \<open>resp_text\<close> is the outcome of
  \<^verbatim>\<open>response.text()\<close>; \<open>json\<close> is the outcome of \<^verbatim>\<open>response.json()\<close> (or of
  \<^verbatim>\<open>JSON.parse(responseText)\<close>), the parsed body seen through the property reads
  the adapter makes on it, each of which may itself throw (a read on \<^verbatim>\<open>null\<close>).
  \<^verbatim>\<open>response.ok\<close> is the Fetch standard's: the status lies in 200..299.
\<close>

record 'b response =
  http_status :: nat
  statusText :: string
  resp_text :: "thrown + string"
  json :: "thrown + 'b"

definition ok :: "('b, 'm) response_scheme \<Rightarrow> bool" where
  "ok r = (200 \<le> http_status r \<and> http_status r \<le> 299)"

text \<open>
  The reads of \<^verbatim>\<open>removeWithFluxKontext\<close> on the parsed body:
  \<open>detail0_file_download_error\<close> is \<^verbatim>\<open>errorData.detail?.[0]?.type === "file_download_error"\<close>,
  \<open>detail\<close> is \<^verbatim>\<open>errorData.detail\<close> as the template string prints it (absent when falsy),
  \<open>has_images\<close> is \<^verbatim>\<open>result.images && result.images.length > 0\<close>,
  \<open>images0_url\<close> is \<^verbatim>\<open>result.images[0].url\<close> and \<open>request_id\<close> is \<^verbatim>\<open>result.request_id\<close>.
\<close>

record fal_body =
  detail0_file_download_error :: "thrown + bool"
  detail :: "thrown + string option"
  has_images :: "thrown + bool"
  images0_url :: "thrown + string option"
  request_id :: "thrown + string option"

text \<open>
  The reads of the other adapters on their success body: the processed image's URL
  (\<^verbatim>\<open>download_url\<close>, \<^verbatim>\<open>result_url\<close>, \<^verbatim>\<open>output_url\<close>, \<^verbatim>\<open>processed_url\<close>) and the job's
  id (\<^verbatim>\<open>job_id\<close>, \<^verbatim>\<open>request_id\<close>). LightPDF's upload body is read for \<^verbatim>\<open>file_id\<close>.
\<close>

record job_body =
  out_url :: "thrown + string option"
  out_id :: "thrown + string option"

record upload_body =
  file_id :: "thrown + string option"

text \<open>
  Everything the outside world does during one call of \<^verbatim>\<open>removeWatermark\<close>: the
  HEAD probe and the submission of the Fal adapter, the clock, LightPDF's two requests,
  and the single request of the three remaining adapters. A rejected \<^verbatim>\<open>fetch\<close> is \<open>Inl\<close>.
\<close>

record call_env =
  probe :: "thrown + unit response"
  post :: "thrown + fal_body response"
  now :: nat
  upload :: "thrown + upload_body response"
  process :: "thrown + job_body response"
  request :: "thrown + job_body response"

definition failure :: "thrown \<Rightarrow> string \<Rightarrow> WatermarkRemovalResult" where
  "failure e d =
     \<lparr>success = False, processedImageUrl = None, error = Some (message_or e d), jobId = None\<rparr>"

text \<open>The inner \<^verbatim>\<open>try\<close> of the Fal adapter: the HEAD probe of the image URL.\<close>

definition probe_image :: "call_env \<Rightarrow> string \<Rightarrow> thrown + unit" where
  "probe_image env imageUrl =
     (case (case probe env of
              Inl e \<Rightarrow> Inl e
            | Inr testResponse \<Rightarrow>
                if \<not> ok testResponse
                then Inl (JsError (''Image URL is not accessible: ''
                       @ string_of_nat (http_status testResponse) @ '' '' @ statusText testResponse))
                else Inr ()) of
        Inl e \<Rightarrow> Inl (JsError (''Cannot access image URL: '' @ imageUrl))
      | Inr u \<Rightarrow> Inr u)"

text \<open>The branch \<^verbatim>\<open>if (!response.ok)\<close> of the Fal adapter; it always throws.\<close>

definition fal_not_ok :: "fal_body response \<Rightarrow> string \<Rightarrow> string \<Rightarrow> thrown" where
  "fal_not_ok response responseText imageUrl =
     (case json response of
        Inl parseError \<Rightarrow>
          JsError (''Fal API error: '' @ string_of_nat (http_status response) @ '' - ''
            @ statusText response @ ''. Response: '' @ take 100 responseText)
      | Inr errorData \<Rightarrow>
          (case (if http_status response = 422 then detail0_file_download_error errorData
                 else Inr False) of
             Inl e \<Rightarrow> e
           | Inr True \<Rightarrow>
               JsError (''Cannot download image from URL: '' @ imageUrl
                 @ ''. Please ensure the URL is publicly accessible.'')
           | Inr False \<Rightarrow>
               if http_status response = 401
               then JsError ''Invalid API key. Please check your Fal.ai API key.''
               else if http_status response = 403
               then JsError ''Access forbidden. Please check your Fal.ai API key permissions.''
               else (case detail errorData of
                       Inl e \<Rightarrow> e
                     | Inr d \<Rightarrow>
                         JsError (''Fal API error: '' @ string_of_nat (http_status response)
                           @ '' - '' @ or_else d (statusText response)))))"

text \<open>The body of the outer \<^verbatim>\<open>try\<close> of \<^verbatim>\<open>removeWithFluxKontext\<close>.\<close>

definition flux_try ::
  "ApiSettings \<Rightarrow> call_env \<Rightarrow> string \<Rightarrow> string \<Rightarrow> thrown + WatermarkRemovalResult" where
  "flux_try settings env imageUrl filename =
     (if startsWith imageUrl ''/'' \<or> includes_str imageUrl ''placeholder.svg''
      then Inl (JsError
        ''Image URL must be publicly accessible. Local URLs are not supported by Fal.ai'')
      else
        case probe_image env imageUrl of
          Inl e \<Rightarrow> Inl e
        | Inr _ \<Rightarrow>
        (case post env of
          Inl e \<Rightarrow> Inl e
        | Inr response \<Rightarrow>
        (case resp_text response of
          Inl e \<Rightarrow> Inl e
        | Inr responseText \<Rightarrow>
            if \<not> ok response then Inl (fal_not_ok response responseText imageUrl)
            else
              (case json response of
                 Inl parseError \<Rightarrow>
                   Inl (JsError (''Invalid JSON response from Fal.ai: '' @ take 100 responseText))
               | Inr result \<Rightarrow>
               (case has_images result of
                 Inl e \<Rightarrow> Inl e
               | Inr False \<Rightarrow> Inl (JsError ''No processed images returned from Flux Kontext'')
               | Inr True \<Rightarrow>
               (case images0_url result of
                 Inl e \<Rightarrow> Inl e
               | Inr u \<Rightarrow>
               (case request_id result of
                 Inl e \<Rightarrow> Inl e
               | Inr rid \<Rightarrow>
                   Inr \<lparr>success = True, processedImageUrl = u, error = None,
                        jobId = Some (or_else rid (''flux_'' @ string_of_nat (now env)))\<rparr>)))))))"

definition removeWithFluxKontext ::
  "ApiSettings \<Rightarrow> call_env \<Rightarrow> string \<Rightarrow> string \<Rightarrow> WatermarkRemovalResult" where
  "removeWithFluxKontext settings env imageUrl filename =
     (case flux_try settings env imageUrl filename of
        Inr r \<Rightarrow> r
      | Inl e \<Rightarrow> failure e ''Unknown error occurred'')"

text \<open>
  The tail shared by every other adapter: \<^verbatim>\<open>if (!response.ok) throw ...\<close>, then
  \<^verbatim>\<open>await response.json()\<close> and the two reads of the result object.
\<close>

definition read_job ::
  "string \<Rightarrow> thrown + job_body response \<Rightarrow> thrown + WatermarkRemovalResult" where
  "read_job what fetched =
     (case fetched of
        Inl e \<Rightarrow> Inl e
      | Inr response \<Rightarrow>
          if \<not> ok response then Inl (JsError (what @ statusText response))
          else
            (case json response of
               Inl e \<Rightarrow> Inl e
             | Inr result \<Rightarrow>
             (case out_url result of
               Inl e \<Rightarrow> Inl e
             | Inr u \<Rightarrow>
             (case out_id result of
               Inl e \<Rightarrow> Inl e
             | Inr j \<Rightarrow>
                 Inr \<lparr>success = True, processedImageUrl = u, error = None, jobId = j\<rparr>))))"

definition lightpdf_try :: "call_env \<Rightarrow> thrown + WatermarkRemovalResult" where
  "lightpdf_try env =
     (case upload env of
        Inl e \<Rightarrow> Inl e
      | Inr uploadResponse \<Rightarrow>
          if \<not> ok uploadResponse
          then Inl (JsError (''Upload failed: '' @ statusText uploadResponse))
          else
            (case json uploadResponse of
               Inl e \<Rightarrow> Inl e
             | Inr uploadResult \<Rightarrow>
             (case file_id uploadResult of
               Inl e \<Rightarrow> Inl e
             | Inr fileId \<Rightarrow> read_job ''Processing failed: '' (process env))))"

definition removeLightPDF ::
  "ApiSettings \<Rightarrow> call_env \<Rightarrow> string \<Rightarrow> string \<Rightarrow> WatermarkRemovalResult" where
  "removeLightPDF settings env imageUrl filename =
     (case lightpdf_try env of Inr r \<Rightarrow> r | Inl e \<Rightarrow> failure e ''Unknown error'')"

definition removeWatermarkRemover ::
  "ApiSettings \<Rightarrow> call_env \<Rightarrow> string \<Rightarrow> string \<Rightarrow> WatermarkRemovalResult" where
  "removeWatermarkRemover settings env imageUrl filename =
     (case read_job ''API request failed: '' (request env) of
        Inr r \<Rightarrow> r
      | Inl e \<Rightarrow> failure e ''Unknown error'')"

definition removeRapidAPI ::
  "ApiSettings \<Rightarrow> call_env \<Rightarrow> string \<Rightarrow> string \<Rightarrow> WatermarkRemovalResult" where
  "removeRapidAPI settings env imageUrl filename =
     (case read_job ''API request failed: '' (request env) of
        Inr r \<Rightarrow> r
      | Inl e \<Rightarrow> failure e ''Unknown error'')"

definition removeCustom ::
  "ApiSettings \<Rightarrow> call_env \<Rightarrow> string \<Rightarrow> string \<Rightarrow> WatermarkRemovalResult" where
  "removeCustom settings env imageUrl filename =
     (case (if \<not> truthy (endpoint settings)
            then Inl (JsError ''Custom endpoint not configured'')
            else read_job ''API request failed: '' (request env)) of
        Inr r \<Rightarrow> r
      | Inl e \<Rightarrow> failure e ''Unknown error'')"

text \<open>
  \<^verbatim>\<open>removeWatermark\<close>: the \<^verbatim>\<open>switch\<close> on the provider string. The \<^verbatim>\<open>default\<close>
  branch throws, which rejects the promise of the \<^verbatim>\<open>async\<close> method.
\<close>

definition removeWatermark ::
  "ApiSettings \<Rightarrow> call_env \<Rightarrow> string \<Rightarrow> string \<Rightarrow> thrown + WatermarkRemovalResult" where
  "removeWatermark settings env imageUrl filename =
     (if provider settings = ''fal''
        then Inr (removeWithFluxKontext settings env imageUrl filename)
      else if provider settings = ''lightpdf''
        then Inr (removeLightPDF settings env imageUrl filename)
      else if provider settings = ''watermarkremover''
        then Inr (removeWatermarkRemover settings env imageUrl filename)
      else if provider settings = ''rapidapi''
        then Inr (removeRapidAPI settings env imageUrl filename)
      else if provider settings = ''custom''
        then Inr (removeCustom settings env imageUrl filename)
      else Inl (JsError ''Unsupported API provider''))"

definition recognized :: "string list" where
  "recognized = [''fal'', ''lightpdf'', ''watermarkremover'', ''rapidapi'', ''custom'']"

section \<open>The retry wrapper (src/app/api/process-images/route.ts)\<close>

record retry_config =
  maxRetries :: nat
  retryDelay :: nat
  backoffMultiplier :: nat

definition RETRY_CONFIG :: retry_config where
  "RETRY_CONFIG = \<lparr>maxRetries = 3, retryDelay = 2000, backoffMultiplier = 2\<rparr>"

text \<open>
  What the wrapper does to the outside: how often it has called \<open>fn\<close>, and the delays
  it has handed to \<^verbatim>\<open>setTimeout\<close>, in order.
\<close>

record retry_log =
  calls :: nat
  waits :: "nat list"

text \<open>
  \<open>fn\<close> is a zero-argument asynchronous operation whose outcome may differ from call to
  call: \<open>fn k\<close> is the outcome of its call number \<open>k\<close> (from 0), \<open>Inl\<close> a rejection.
\<close>

fun retryWithBackoff ::
  "(nat \<Rightarrow> thrown + 'a) \<Rightarrow> nat \<Rightarrow> nat \<Rightarrow> retry_log \<Rightarrow> (thrown + 'a) \<times> retry_log" where
  "retryWithBackoff fn retries delay l =
     (case fn (calls l) of
        Inr v \<Rightarrow> (Inr v, l\<lparr>calls := Suc (calls l)\<rparr>)
      | Inl e \<Rightarrow>
          if retries > 0
          then retryWithBackoff fn (retries - 1) (delay * backoffMultiplier RETRY_CONFIG)
                 (l\<lparr>calls := Suc (calls l), waits := waits l @ [delay]\<rparr>)
          else (Inl e, l\<lparr>calls := Suc (calls l)\<rparr>))"

declare retryWithBackoff.simps [simp del]


datatype result_status = Success | Error | Processing

record ProcessingResult =
  originalUrl :: string
  processedUrl :: string
  filename :: string
  status :: result_status
  message :: "string option"
  result_jobId :: "string option"

text \<open>
  \<open>processImageWithRetry api imageUrl filename\<close>. \<open>net k\<close> is what the outside world
  does during call number \<open>k\<close> of \<^verbatim>\<open>api.removeWatermark\<close>. The retry log is returned
  beside the result, so that the calls made and the delays waited can be counted.
\<close>

definition processImageWithRetry ::
  "ApiSettings \<Rightarrow> (nat \<Rightarrow> call_env) \<Rightarrow> string \<Rightarrow> string \<Rightarrow> ProcessingResult \<times> retry_log" where
  "processImageWithRetry api net imageUrl fname =
     (case retryWithBackoff (\<lambda>k. removeWatermark api (net k) imageUrl fname)
             (maxRetries RETRY_CONFIG) (retryDelay RETRY_CONFIG) \<lparr>calls = 0, waits = []\<rparr> of
        (Inr result, l) \<Rightarrow>
          if success result \<and> truthy (processedImageUrl result)
          then (\<lparr>originalUrl = imageUrl, processedUrl = the (processedImageUrl result),
                 filename = fname, status = Success, message = None,
                 result_jobId = jobId result\<rparr>, l)
          else (\<lparr>originalUrl = imageUrl, processedUrl = imageUrl,
                 filename = fname, status = Error,
                 message = Some (or_else (error result) ''Processing failed''),
                 result_jobId = None\<rparr>, l)
      | (Inl e, l) \<Rightarrow>
          (\<lparr>originalUrl = imageUrl, processedUrl = imageUrl,
            filename = fname, status = Error,
            message = Some (message_or e ''Unknown error''),
            result_jobId = None\<rparr>, l))"

section \<open>The progress store and the batch scheduler\<close>

datatype progress_status = ProgressProcessing | ProgressCompleted | ProgressError

record ProcessingProgress =
  total :: nat
  completed :: nat
  current :: string
  progress :: progress_status
  results :: "ProcessingResult list"

text \<open>
  \<^verbatim>\<open>progressStore\<close>: a \<^verbatim>\<open>Map\<close> keyed by what \<^verbatim>\<open>formData.get("sessionId")\<close> returned,
  a string or \<^verbatim>\<open>null\<close> (\<open>None\<close>).
\<close>

type_synonym progressStore = "string option \<rightharpoonup> ProcessingProgress"

record image =
  url :: string
  image_filename :: string
  isUploaded :: bool

text \<open>
  The two stretches of the callback of \<^verbatim>\<open>batch.map\<close> that run without interruption:
  up to \<^verbatim>\<open>await processImageWithRetry(...)\<close> the task records itself as current;
  after it the task counts itself, appends its result and closes the session when
  \<^verbatim>\<open>completed >= total\<close>.
\<close>

definition start_task :: "string option \<Rightarrow> image \<Rightarrow> progressStore \<Rightarrow> progressStore" where
  "start_task sessionId img store =
     (case store sessionId of
        None \<Rightarrow> store
      | Some currentProgress \<Rightarrow>
          store(sessionId \<mapsto> currentProgress\<lparr>current := image_filename img\<rparr>))"

definition finish_task ::
  "string option \<Rightarrow> ProcessingResult \<Rightarrow> progressStore \<Rightarrow> progressStore" where
  "finish_task sessionId result store =
     (case store sessionId of
        None \<Rightarrow> store
      | Some updatedProgress \<Rightarrow>
          (let p = updatedProgress\<lparr>completed := completed updatedProgress + 1,
                                    results := results updatedProgress @ [result]\<rparr>
           in store(sessionId \<mapsto>
                (if completed p \<ge> total p
                 then p\<lparr>progress := ProgressCompleted, current := []\<rparr>
                 else p))))"

text \<open>
  The order in which the tasks of a window finish is the network's choice. A schedule
  is a list of choices: each picks, among the tasks still in flight, the one that
  finishes next (the choice is taken modulo their number; a missing choice is 0).
\<close>

function pick_order :: "nat list \<Rightarrow> 'a list \<Rightarrow> 'a list" where
  "pick_order cs xs =
     (if xs = [] then []
      else (let k = (case cs of [] \<Rightarrow> 0 | c # _ \<Rightarrow> c mod length xs)
            in xs ! k # pick_order (tl cs) (take k xs @ drop (Suc k) xs)))"
  by pat_completeness auto
termination
proof (relation "measure (\<lambda>(cs, xs). length xs)")
  show "wf (measure (\<lambda>(cs, xs). length xs))"
    by simp
next
  fix cs :: "nat list" and xs :: "'a list" and k
  assume nonempty: "xs \<noteq> []"
    and k: "k = (case cs of [] \<Rightarrow> 0 | c # _ \<Rightarrow> c mod length xs)"
  have "k < length xs"
    using nonempty k by (cases cs) simp_all
  then show "((tl cs, take k xs @ drop (Suc k) xs), cs, xs) \<in> measure (\<lambda>(cs, xs). length xs)"
    by simp
qed

declare pick_order.simps [simp del]

text \<open>
  What an observer of the store can see: a window has been launched, or a task has
  finished. Each event is kept with the store as it stands right after it.
\<close>

datatype event = Launched "image list" | Finished ProcessingResult retry_log

definition slice :: "'a list \<Rightarrow> nat \<Rightarrow> nat \<Rightarrow> 'a list" where
  "slice xs i j = take (j - i) (drop i xs)"

text \<open>
  One window: \<^verbatim>\<open>batch.map\<close> runs every callback up to its first \<^verbatim>\<open>await\<close>, in
  order; then the tasks finish in the order the schedule picks. \<open>i\<close> is the index of
  the window's first task, \<open>net (i + j)\<close> the network as task \<open>i + j\<close> meets it.
\<close>

fun finish_all ::
  "string option \<Rightarrow> (ProcessingResult \<times> retry_log) list \<Rightarrow> progressStore
     \<Rightarrow> (event \<times> progressStore) list" where
  "finish_all sessionId [] store = []"
| "finish_all sessionId ((r, l) # rest) store =
     (let store' = finish_task sessionId r store
      in (Finished r l, store') # finish_all sessionId rest store')"

definition store_after :: "progressStore \<Rightarrow> (event \<times> progressStore) list \<Rightarrow> progressStore" where
  "store_after store evs = (if evs = [] then store else snd (last evs))"

record window_run =
  window_events :: "(event \<times> progressStore) list"
  batchResults :: "ProcessingResult list"

definition run_window ::
  "ApiSettings \<Rightarrow> (nat \<Rightarrow> nat \<Rightarrow> call_env) \<Rightarrow> nat list \<Rightarrow> string option
     \<Rightarrow> nat \<Rightarrow> image list \<Rightarrow> progressStore \<Rightarrow> window_run" where
  "run_window api net choices sessionId i batch store =
     (let launched = foldl (\<lambda>s img. start_task sessionId img s) store batch;
          outcomes = map (\<lambda>(j, img). processImageWithRetry api (net (i + j))
                              (url img) (image_filename img))
                       (zip [0..<length batch] batch)
      in \<lparr>window_events =
            (Launched batch, launched) # finish_all sessionId (pick_order choices outcomes) launched,
          batchResults = map fst outcomes\<rparr>)"

text \<open>
  The loop \<^verbatim>\<open>for (let i = 0; i < imagesToProcess.length; i += concurrencyLimit)\<close>.
  \<open>sched w\<close> is the schedule of window number \<open>w\<close>. With a limit of 0 and a task left
  the loop would never advance: that run has no result (\<open>None\<close>).
\<close>

record batch_run =
  events :: "(event \<times> progressStore) list"
  response_results :: "ProcessingResult list"

function process_from ::
  "ApiSettings \<Rightarrow> (nat \<Rightarrow> nat \<Rightarrow> call_env) \<Rightarrow> (nat \<Rightarrow> nat list) \<Rightarrow> string option
     \<Rightarrow> nat \<Rightarrow> image list \<Rightarrow> nat \<Rightarrow> nat \<Rightarrow> progressStore \<Rightarrow> batch_run option" where
  "process_from api net sched sessionId concurrencyLimit imagesToProcess w i store =
     (if i < length imagesToProcess then
        (if concurrencyLimit = 0 then None
         else
           (let batch = slice imagesToProcess i (i + concurrencyLimit);
                run = run_window api net (sched w) sessionId i batch store
            in case process_from api net sched sessionId concurrencyLimit imagesToProcess
                      (Suc w) (i + concurrencyLimit)
                      (store_after store (window_events run)) of
                 None \<Rightarrow> None
               | Some rest \<Rightarrow>
                   Some \<lparr>events = window_events run @ events rest,
                         response_results = batchResults run @ response_results rest\<rparr>))
      else Some \<lparr>events = [], response_results = []\<rparr>)"
  by pat_completeness auto
termination
  by (relation "measure (\<lambda>(api, net, sched, sessionId, c, images, w, i, store). length images - i)")
     auto

declare process_from.simps [simp del]


section \<open>The processing route (src/app/api/process-images/route.ts)\<close>

text \<open>
  A JSON response: \<^verbatim>\<open>NextResponse.json(body)\<close> has status 200, and
  \<^verbatim>\<open>NextResponse.json({ error: message }, { status: code })\<close> is a failure.
\<close>

datatype 'a reply = Json 'a | Failure nat string

fun status_code :: "'a reply \<Rightarrow> nat" where
  "status_code (Json b) = 200"
| "status_code (Failure code m) = code"

record environment =
  DEMO_MODE :: "string option"
  FAL_KEY :: "string option"
  FAL_API_KEY :: "string option"
  FAL_EMAIL :: "string option"
  FAL_PASSWORD :: "string option"

text \<open>
  An uploaded \<^verbatim>\<open>File\<close> with what the outside does to it: \<open>put_url\<close> is the outcome
  of the upload to the blob store (the public URL), \<open>base64\<close> that of reading the
  file's bytes and encoding them.
\<close>

record uploaded_file =
  file_name :: string
  file_type :: string
  put_url :: "thrown + string"
  base64 :: "thrown + string"

text \<open>
  The form as the handler reads it. \<open>fileCount\<close> is the value of
  \<^verbatim>\<open>Number.parseInt(formData.get("fileCount") || "0")\<close>, \<open>None\<close> for \<^verbatim>\<open>NaN\<close>;
  \<open>files i\<close> is \<^verbatim>\<open>formData.get(`file_${i}`)\<close>.
\<close>

record form_data =
  sessionId :: "string option"
  galleryUrl :: "string option"
  fileCount :: "int option"
  files :: "nat \<Rightarrow> uploaded_file option"

text \<open>
  The outside world of one request: the network as task \<open>t\<close> meets it at its call
  \<open>k\<close> (\<open>net t k\<close>), the order in which the tasks of each window finish, and the
  outcome of the \<^verbatim>\<open>try\<close> block that asks \<^verbatim>\<open>/api/extract-gallery\<close> for the images of
  the gallery (anything thrown in it is \<open>Inl\<close>).
\<close>

record world =
  net :: "nat \<Rightarrow> nat \<Rightarrow> call_env"
  sched :: "nat \<Rightarrow> nat list"
  extracted :: "thrown + image list"

fun replace_first :: "string \<Rightarrow> string \<Rightarrow> string \<Rightarrow> string" where
  "replace_first [] p r = (if p = [] then r else [])"
| "replace_first (c # cs) p r =
     (if startsWith (c # cs) p then r @ drop (length p) (c # cs)
      else c # replace_first cs p r)"

definition whitespace :: "char \<Rightarrow> bool" where
  "whitespace c = (c \<in> set [CHR 0x09, CHR 0x0A, CHR 0x0B, CHR 0x0C, CHR 0x0D, CHR 0x20, CHR 0xA0])"

text \<open>\<open>blank s\<close>: \<^verbatim>\<open>s.trim()\<close> is the empty string.\<close>

definition blank :: "string \<Rightarrow> bool" where
  "blank s = list_all whitespace s"

definition sampleImages :: "(string \<times> string) list" where
  "sampleImages =
     [(''/placeholder.svg?height=400&width=600&text=Sample+Image+1+with+Watermark'', ''sample_1.jpg''),
      (''/placeholder.svg?height=400&width=600&text=Sample+Image+2+with+Watermark'', ''sample_2.jpg''),
      (''/placeholder.svg?height=400&width=600&text=Sample+Image+3+with+Watermark'', ''sample_3.jpg'')]"

definition demo_results :: "ProcessingResult list" where
  "demo_results =
     map (\<lambda>(u, f). \<lparr>originalUrl = u,
                     processedUrl = replace_first u ''with+Watermark'' ''Watermark+Removed'',
                     filename = f, status = Success,
                     message = Some ''Demo processing completed'', result_jobId = None\<rparr>)
       sampleImages"

definition fallback_images :: "image list" where
  "fallback_images =
     [\<lparr>url = ''https://images.unsplash.com/photo-1503023345310-bd7c1de61c7d?w=800&h=600&fit=crop'',
       image_filename = ''sample_landscape.jpg'', isUploaded = False\<rparr>,
      \<lparr>url = ''https://images.unsplash.com/photo-1516117172878-fd2c41f4a759?w=800&h=600&fit=crop'',
       image_filename = ''sample_architecture.jpg'', isUploaded = False\<rparr>]"

text \<open>
  The loop over the uploaded files. A failed upload keeps the file as a data URL; a
  failure to read the file's bytes there is not caught by the loop.
\<close>

fun upload_files ::
  "(nat \<Rightarrow> uploaded_file option) \<Rightarrow> nat list \<Rightarrow> image list \<Rightarrow> thrown + image list" where
  "upload_files fs [] imagesToProcess = Inr imagesToProcess"
| "upload_files fs (i # rest) imagesToProcess =
     (case fs i of
        None \<Rightarrow> upload_files fs rest imagesToProcess
      | Some file \<Rightarrow>
          (case put_url file of
             Inr blob_url \<Rightarrow>
               upload_files fs rest
                 (imagesToProcess @
                    [\<lparr>url = blob_url, image_filename = file_name file, isUploaded = True\<rparr>])
           | Inl err \<Rightarrow>
               (case base64 file of
                  Inl e \<Rightarrow> Inl e
                | Inr b \<Rightarrow>
                    upload_files fs rest
                      (imagesToProcess @
                         [\<lparr>url = ''data:'' @ file_type file @ '';base64,'' @ b,
                           image_filename = file_name file, isUploaded = True\<rparr>]))))"

definition resolve_images :: "world \<Rightarrow> form_data \<Rightarrow> thrown + image list" where
  "resolve_images wd formData =
     (case (case fileCount formData of
              None \<Rightarrow> Inr []
            | Some n \<Rightarrow> if n > 0 then upload_files (files formData) [0..<nat n] [] else Inr []) of
        Inl e \<Rightarrow> Inl e
      | Inr uploaded \<Rightarrow>
          if truthy (galleryUrl formData) \<and> \<not> blank (the (galleryUrl formData))
          then (case extracted wd of
                  Inr images \<Rightarrow> Inr (uploaded @ map (\<lambda>img. img\<lparr>isUploaded := False\<rparr>) images)
                | Inl e \<Rightarrow> if uploaded = [] then Inl e else Inr uploaded)
          else Inr uploaded)"

record process_body =
  body_results :: "ProcessingResult list"
  body_sessionId :: "string option"
  body_demoMode :: "bool option"

text \<open>
  What a request leaves behind: its response, the store and the events of the batch.
  \<open>provider_calls\<close> counts the calls of \<^verbatim>\<open>api.removeWatermark\<close> in the events.
\<close>

record post_outcome =
  response :: "process_body reply"
  store_left :: progressStore
  batch_events :: "(event \<times> progressStore) list"

definition concurrencyLimit :: nat where
  "concurrencyLimit = 2"

fun provider_calls :: "(event \<times> progressStore) list \<Rightarrow> nat" where
  "provider_calls [] = 0"
| "provider_calls ((Launched b, s) # evs) = provider_calls evs"
| "provider_calls ((Finished r l, s) # evs) = calls l + provider_calls evs"

definition POST ::
  "environment \<Rightarrow> world \<Rightarrow> progressStore \<Rightarrow> thrown + form_data \<Rightarrow> post_outcome option" where
  "POST env wd store request_form =
     (case request_form of
        Inl e \<Rightarrow>
          Some \<lparr>response = Failure 500 (message_or e ''Failed to process images''),
                store_left = store, batch_events = []\<rparr>
      | Inr formData \<Rightarrow>
          (let demoMode = (DEMO_MODE env = Some ''true'');
               key = or_else (or_opt (FAL_KEY env) (FAL_API_KEY env)) []
           in if demoMode \<or> key = []
              then Some \<lparr>response = Json \<lparr>body_results = demo_results,
                                          body_sessionId = sessionId formData,
                                          body_demoMode = Some True\<rparr>,
                         store_left = store, batch_events = []\<rparr>
              else
                (case resolve_images wd formData of
                   Inl e \<Rightarrow>
                     Some \<lparr>response = Failure 500 (message_or e ''Failed to process images''),
                           store_left = store, batch_events = []\<rparr>
                 | Inr resolved \<Rightarrow>
                     (let imagesToProcess = (if resolved = [] then fallback_images else resolved);
                          store1 = store(sessionId formData \<mapsto>
                                     \<lparr>total = length imagesToProcess, completed = 0, current = [],
                                      progress = ProgressProcessing, results = []\<rparr>);
                          api = \<lparr>provider = ''fal'', apiKey = key, endpoint = Some []\<rparr>
                      in case process_from api (net wd) (sched wd) (sessionId formData)
                                concurrencyLimit imagesToProcess 0 0 store1 of
                           None \<Rightarrow> None
                         | Some run \<Rightarrow>
                             Some \<lparr>response = Json \<lparr>body_results = response_results run,
                                                     body_sessionId = sessionId formData,
                                                     body_demoMode = None\<rparr>,
                                   store_left = store_after store1 (events run),
                                   batch_events = events run\<rparr>))))"

text \<open>The polling endpoint: \<^verbatim>\<open>GET\<close> of the same route.\<close>

definition GET :: "progressStore \<Rightarrow> string option \<Rightarrow> ProcessingProgress reply" where
  "GET store sessionId_param =
     (if \<not> truthy sessionId_param then Failure 400 ''Session ID required''
      else case store sessionId_param of
             None \<Rightarrow> Failure 404 ''Session not found''
           | Some p \<Rightarrow> Json p)"

section \<open>The status route (src/app/api/status/route.ts)\<close>

record status_body =
  demoMode :: bool
  apiConfigured :: bool
  apiKeyFormat :: string
  status_provider :: string
  status_message :: string
  keyLength :: nat
  keyPrefix :: "string option"
  emailConfigured :: bool
  passwordConfigured :: bool

definition GET_status :: "environment \<Rightarrow> status_body reply" where
  "GET_status env =
     (let key = or_opt (FAL_KEY env) (FAL_API_KEY env);
          demo = (DEMO_MODE env = Some ''true'');
          isValidFormat = (truthy key \<and> length (the key) > 10)
      in Json \<lparr>demoMode = demo,
               apiConfigured = truthy key,
               apiKeyFormat = (if isValidFormat then ''valid'' else ''invalid''),
               status_provider = (if demo then ''demo'' else if truthy key then ''fal'' else ''demo''),
               status_message =
                 (if demo then ''Running in demo mode (DEMO_MODE=true)''
                  else if truthy key
                  then ''Fal.ai API key configured ''
                         @ (if isValidFormat then ''(format looks correct)''
                            else ''(please check format)'')
                  else ''No API key found - running in demo mode''),
               keyLength = (if truthy key then length (the key) else 0),
               keyPrefix = (if truthy key then Some (take 4 (the key) @ ''...'') else None),
               emailConfigured = truthy (FAL_EMAIL env),
               passwordConfigured = truthy (FAL_PASSWORD env)\<rparr>)"


section \<open>The gallery route (extract-gallery)\<close>

text \<open>
  The \<^verbatim>\<open>url\<close> of a collected image is a string, except that the third strategy can
  push an entry of \<^verbatim>\<open>jsonData.image\<close> that is itself an array. Such a value equals
  only itself under \<^verbatim>\<open>===\<close>, so it is kept by its place: the script it came from and
  its index among the entries.
\<close>

datatype image_url = Text string | Listed nat nat

record GalleryImage =
  gallery_url :: image_url
  gallery_filename :: string
  thumbnail :: "image_url option"
















text \<open>\<^verbatim>\<open>self.findIndex(pred)\<close>: the first index where \<open>pred\<close> holds, or -1.\<close>

fun findIndex :: "('a \<Rightarrow> bool) \<Rightarrow> 'a list \<Rightarrow> int" where
  "findIndex pred [] = -1"
| "findIndex pred (x # xs) =
     (if pred x then 0
      else (let i = findIndex pred xs in if i < 0 then -1 else i + 1))"

definition uniqueImages :: "GalleryImage list \<Rightarrow> GalleryImage list" where
  "uniqueImages images =
     map snd
       (filter (\<lambda>(index, img). int index = findIndex (\<lambda>i. gallery_url i = gallery_url img) images)
          (zip [0..<length images] images))"








section \<open>Notions of the specification of the scheduler\<close>

text \<open>
  The windows as the specification words them: the list cut into pieces of the size
  of the limit, in input order.
\<close>

function chunks :: "nat \<Rightarrow> 'a list \<Rightarrow> 'a list list" where
  "chunks c xs = (if xs = [] \<or> c = 0 then [] else take c xs # chunks c (drop c xs))"
  by pat_completeness auto
termination
  by (relation "measure (\<lambda>(c, xs). length xs)") auto

declare chunks.simps [simp del]

text \<open>The outcome of task number \<open>t\<close> of the batch, whenever it runs.\<close>

definition task_outcome ::
  "ApiSettings \<Rightarrow> (nat \<Rightarrow> nat \<Rightarrow> call_env) \<Rightarrow> nat \<times> image \<Rightarrow> ProcessingResult \<times> retry_log" where
  "task_outcome api nw = (\<lambda>(t, img). processImageWithRetry api (nw t) (url img) (image_filename img))"

definition task_result ::
  "ApiSettings \<Rightarrow> (nat \<Rightarrow> nat \<Rightarrow> call_env) \<Rightarrow> nat \<times> image \<Rightarrow> ProcessingResult" where
  "task_result api nw ti = fst (task_outcome api nw ti)"

fun is_finished :: "event \<times> 's \<Rightarrow> bool" where
  "is_finished (Finished r l, s) = True"
| "is_finished (Launched b, s) = False"

fun finished :: "(event \<times> 's) list \<Rightarrow> ProcessingResult list" where
  "finished [] = []"
| "finished ((Finished r l, s) # evs) = r # finished evs"
| "finished ((Launched b, s) # evs) = finished evs"

text \<open>
  The windows that a sequence of events shows: each launch with the results of the
  tasks that finish before the next launch.
\<close>

fun windows_seen :: "(event \<times> 's) list \<Rightarrow> (image list \<times> ProcessingResult list) list" where
  "windows_seen [] = []"
| "windows_seen ((Launched b, s) # evs) =
     (b, finished (takeWhile is_finished evs)) # windows_seen evs"
| "windows_seen ((Finished r l, s) # evs) = windows_seen evs"

text \<open>
  The invariant of a snapshot of a batch of \<open>n\<close> tasks, and what a sequence of events
  must show of the session \<open>sid\<close>: every snapshot satisfies the invariant, a launch
  leaves the results as they are, and a task that finishes appends its result and
  nothing else. \<open>rs\<close> are the results before the sequence.
\<close>

definition snapshot_ok :: "nat \<Rightarrow> ProcessingProgress \<Rightarrow> bool" where
  "snapshot_ok n p =
     (total p = n \<and> length (results p) = completed p \<and> completed p \<le> n
      \<and> (completed p = n \<longrightarrow> progress p = ProgressCompleted \<and> current p = []))"

fun trace_ok ::
  "string option \<Rightarrow> nat \<Rightarrow> ProcessingResult list \<Rightarrow> (event \<times> progressStore) list \<Rightarrow> bool" where
  "trace_ok sid n rs [] = True"
| "trace_ok sid n rs ((Launched b, s) # evs) =
     (case s sid of
        None \<Rightarrow> False
      | Some p \<Rightarrow> snapshot_ok n p \<and> results p = rs \<and> trace_ok sid n rs evs)"
| "trace_ok sid n rs ((Finished r l, s) # evs) =
     (case s sid of
        None \<Rightarrow> False
      | Some p \<Rightarrow> snapshot_ok n p \<and> results p = rs @ [r] \<and> trace_ok sid n (rs @ [r]) evs)"

text \<open>The value of \<^verbatim>\<open>completed\<close> that a poll of session \<open>sid\<close> reads after an event.\<close>

definition completed_at :: "string option \<Rightarrow> event \<times> progressStore \<Rightarrow> nat" where
  "completed_at sid ev = (case snd ev sid of None \<Rightarrow> 0 | Some p \<Rightarrow> completed p)"

definition observed_ok :: "string option \<Rightarrow> nat \<Rightarrow> event \<times> progressStore \<Rightarrow> bool" where
  "observed_ok sid n ev = (case snd ev sid of None \<Rightarrow> False | Some p \<Rightarrow> snapshot_ok n p)"


section \<open>Notions of the specification of the adapter\<close>

text \<open>
  The adapter's own conditions on its way to the provider: the Fal adapter submits an
  image only when the URL is public and the probe succeeds, and LightPDF processes a
  file only when the upload has succeeded and its body could be read.
\<close>

definition public_url :: "string \<Rightarrow> bool" where
  "public_url u = (\<not> startsWith u ''/'' \<and> \<not> includes_str u ''placeholder.svg'')"

definition probed :: "call_env \<Rightarrow> bool" where
  "probed env = (case probe env of Inl e \<Rightarrow> False | Inr r \<Rightarrow> ok r)"

definition uploaded :: "call_env \<Rightarrow> bool" where
  "uploaded env =
     (case upload env of
        Inl e \<Rightarrow> False
      | Inr up \<Rightarrow>
          ok up \<and> (case json up of
                     Inl e \<Rightarrow> False
                   | Inr b \<Rightarrow> (case file_id b of Inl e \<Rightarrow> False | Inr i \<Rightarrow> True)))"

section \<open>Notions of the specification of the scraper\<close>






text \<open>The image at place \<open>k\<close> is the first of the list with its URL.\<close>

definition first_at :: "GalleryImage list \<Rightarrow> nat \<Rightarrow> bool" where
  "first_at images k =
     list_all (\<lambda>j. gallery_url (images ! j) \<noteq> gallery_url (images ! k)) [0..<k]"



section \<open>Sample inputs\<close>

text \<open>
  A network that is down, a provider that is not in the \<^verbatim>\<open>switch\<close>, and a provider
  that answers the probe and refuses the submission.
\<close>

definition offline :: call_env where
  "offline = \<lparr>probe = Inl (JsError ''fetch failed''), post = Inl (JsError ''fetch failed''),
     now = 0, upload = Inl (JsError ''fetch failed''), process = Inl (JsError ''fetch failed''),
     request = Inl (JsError ''fetch failed'')\<rparr>"

definition fal_api :: ApiSettings where
  "fal_api = \<lparr>provider = ''fal'', apiKey = ''key-0123456789'', endpoint = Some []\<rparr>"

definition unknown_api :: ApiSettings where
  "unknown_api = \<lparr>provider = ''other'', apiKey = ''key-0123456789'', endpoint = Some []\<rparr>"

text \<open>A provider that answers the probe and then refuses the submission with 401.\<close>

definition unauthorized :: call_env where
  "unauthorized = \<lparr>probe = Inr \<lparr>http_status = 200, statusText = ''OK'', resp_text = Inr [], json = Inr ()\<rparr>,
     post = Inr \<lparr>http_status = 401, statusText = ''Unauthorized'', resp_text = Inr ''{}'',
       json = Inr \<lparr>detail0_file_download_error = Inr False, detail = Inr None, has_images = Inr False,
                    images0_url = Inr None, request_id = Inr None\<rparr>\<rparr>,
     now = 0, upload = Inl (JsError ''fetch failed''), process = Inl (JsError ''fetch failed''),
     request = Inl (JsError ''fetch failed'')\<rparr>"


definition example_url :: string where
  "example_url = ''https://example.com/a.jpg''"

definition no_env :: environment where
  "no_env = \<lparr>DEMO_MODE = None, FAL_KEY = None, FAL_API_KEY = None, FAL_EMAIL = None,
     FAL_PASSWORD = None\<rparr>"

definition empty_form :: form_data where
  "empty_form = \<lparr>sessionId = Some ''session_1'', galleryUrl = None, fileCount = Some 0,
     files = (\<lambda>i. None)\<rparr>"

definition quiet_world :: world where
  "quiet_world = \<lparr>net = (\<lambda>t k. offline), sched = (\<lambda>w. []),
     extracted = Inl (JsError ''fetch failed'')\<rparr>"

definition sample_progress :: ProcessingProgress where
  "sample_progress = \<lparr>total = 2, completed = 0, current = ''a.jpg'',
     progress = ProgressProcessing, results = []\<rparr>"

definition online :: call_env where
  "online = \<lparr>probe = Inr \<lparr>http_status = 200, statusText = ''OK'', resp_text = Inr [], json = Inr ()\<rparr>,
     post = Inr \<lparr>http_status = 200, statusText = ''OK'', resp_text = Inr ''{}'',
       json = Inr \<lparr>detail0_file_download_error = Inr False, detail = Inr None, has_images = Inr True,
                    images0_url = Inr (Some ''https://fal.media/out.jpg''), request_id = Inr (Some ''req_1'')\<rparr>\<rparr>,
     now = 0, upload = Inl (JsError ''fetch failed''), process = Inl (JsError ''fetch failed''),
     request = Inl (JsError ''fetch failed'')\<rparr>"

definition three_images :: "image list" where
  "three_images =
     [\<lparr>url = ''https://example.com/1.jpg'', image_filename = ''1.jpg'', isUploaded = True\<rparr>,
      \<lparr>url = ''https://example.com/2.jpg'', image_filename = ''2.jpg'', isUploaded = True\<rparr>,
      \<lparr>url = ''https://example.com/3.jpg'', image_filename = ''3.jpg'', isUploaded = True\<rparr>]"

definition mixed_net :: "nat \<Rightarrow> nat \<Rightarrow> call_env" where
  "mixed_net t k = (if t = 1 then online else offline)"

definition key_env :: environment where
  "key_env = no_env\<lparr>FAL_KEY := Some ''key-0123456789''\<rparr>"

definition mixed_world :: world where
  "mixed_world = \<lparr>net = mixed_net, sched = (\<lambda>w. [1]), extracted = Inl (JsError ''fetch failed'')\<rparr>"

definition landscape_failed :: ProcessingResult where
  "landscape_failed =
     \<lparr>originalUrl = url (hd fallback_images), processedUrl = url (hd fallback_images),
      filename = ''sample_landscape.jpg'', status = Error,
      message = Some (''Cannot access image URL: '' @ url (hd fallback_images)),
      result_jobId = None\<rparr>"

definition architecture_done :: ProcessingResult where
  "architecture_done =
     \<lparr>originalUrl = url (last fallback_images), processedUrl = ''https://fal.media/out.jpg'',
      filename = ''sample_architecture.jpg'', status = Success, message = None,
      result_jobId = Some ''req_1''\<rparr>"


definition rapid_api :: ApiSettings where
  "rapid_api = \<lparr>provider = ''rapidapi'', apiKey = ''key-0123456789'', endpoint = None\<rparr>"

definition custom_api :: ApiSettings where
  "custom_api = \<lparr>provider = ''custom'', apiKey = ''key-0123456789'', endpoint = None\<rparr>"

definition lightpdf_api :: ApiSettings where
  "lightpdf_api = \<lparr>provider = ''lightpdf'', apiKey = ''key-0123456789'', endpoint = None\<rparr>"

text \<open>A provider that answers every request with status 500.\<close>

definition failing_server :: call_env where
  "failing_server =
     \<lparr>probe = Inr \<lparr>http_status = 500, statusText = ''Internal Server Error'',
                    resp_text = Inr [], json = Inr ()\<rparr>,
      post = Inr \<lparr>http_status = 500, statusText = ''Internal Server Error'',
                   resp_text = Inr [], json = Inl (JsError ''Unexpected end of JSON input'')\<rparr>,
      now = 0,
      upload = Inr \<lparr>http_status = 500, statusText = ''Internal Server Error'',
                     resp_text = Inr [], json = Inl (JsError ''Unexpected end of JSON input'')\<rparr>,
      process = Inr \<lparr>http_status = 500, statusText = ''Internal Server Error'',
                      resp_text = Inr [], json = Inl (JsError ''Unexpected end of JSON input'')\<rparr>,
      request = Inr \<lparr>http_status = 500, statusText = ''Internal Server Error'',
                      resp_text = Inr [], json = Inl (JsError ''Unexpected end of JSON input'')\<rparr>\<rparr>"

text \<open>LightPDF taking the upload and then failing to process the file.\<close>

definition upload_only :: call_env where
  "upload_only =
     failing_server\<lparr>upload := Inr \<lparr>http_status = 200, statusText = ''OK'', resp_text = Inr [],
                                json = Inr \<lparr>file_id = Inr (Some ''file_1'')\<rparr>\<rparr>\<rparr>"






section \<open>The adapter never rejects; the retry wrapper retries rejections only\<close>

lemma retry_resolved:
  "fn (calls l) = Inr v \<Longrightarrow> retryWithBackoff fn retries delay l = (Inr v, l\<lparr>calls := Suc (calls l)\<rparr>)"
  by (simp add: retryWithBackoff.simps)

lemma upt_Suc_shift: "[0..<Suc n] = 0 # map Suc [0..<n]"
  by (metis map_Suc_upt upt_conv_Cons zero_less_Suc)

lemma upt_three: "[0..<3] = [0, 1, 2]"
  by code_simp

lemma retry_rejected:
  assumes "\<forall>k. fn k = Inl (e k)"
  shows "retryWithBackoff fn retries delay l =
     (Inl (e (calls l + retries)),
      \<lparr>calls = calls l + retries + 1,
       waits = waits l @ map (\<lambda>j. delay * backoffMultiplier RETRY_CONFIG ^ j) [0..<retries]\<rparr>)"
proof (induction retries arbitrary: delay l)
  case 0
  show ?case
    using assms by (subst retryWithBackoff.simps) simp
next
  case (Suc n)
  let ?k = "backoffMultiplier RETRY_CONFIG"
  let ?l = "l\<lparr>calls := Suc (calls l), waits := waits l @ [delay]\<rparr>"
  have step: "retryWithBackoff fn (Suc n) delay l = retryWithBackoff fn n (delay * ?k) ?l"
    using assms by (subst retryWithBackoff.simps) simp
  have series: "map (\<lambda>j. delay * ?k ^ j) [0..<Suc n] = delay # map (\<lambda>j. delay * ?k * ?k ^ j) [0..<n]"
    by (simp only: upt_Suc_shift list.map map_map o_def power_0 power_Suc mult_1_right mult.assoc)
  show ?case
    unfolding step Suc.IH series by simp
qed

lemma failure_simps [simp]:
  "success (failure e d) = False" "error (failure e d) = Some (message_or e d)"
  "processedImageUrl (failure e d) = None" "jobId (failure e d) = None"
  by (simp_all add: failure_def)

lemma flux_try_success: "flux_try api env u f = Inr r \<Longrightarrow> success r"
  by (auto simp: flux_try_def split: if_splits sum.splits bool.splits)

lemma read_job_success: "read_job what fetched = Inr r \<Longrightarrow> success r"
  by (auto simp: read_job_def split: if_splits sum.splits)

lemma lightpdf_try_success: "lightpdf_try env = Inr r \<Longrightarrow> success r"
  by (auto simp: lightpdf_try_def split: if_splits sum.splits dest: read_job_success)

lemma removeWithFluxKontext_outcome:
  "success (removeWithFluxKontext api env u f) \<or> error (removeWithFluxKontext api env u f) \<noteq> None"
  by (auto simp: removeWithFluxKontext_def split: sum.splits dest: flux_try_success)

lemma removeLightPDF_outcome:
  "success (removeLightPDF api env u f) \<or> error (removeLightPDF api env u f) \<noteq> None"
  by (auto simp: removeLightPDF_def split: sum.splits dest: lightpdf_try_success)

lemma removeWatermarkRemover_outcome:
  "success (removeWatermarkRemover api env u f) \<or> error (removeWatermarkRemover api env u f) \<noteq> None"
  by (auto simp: removeWatermarkRemover_def split: sum.splits dest: read_job_success)

lemma removeRapidAPI_outcome:
  "success (removeRapidAPI api env u f) \<or> error (removeRapidAPI api env u f) \<noteq> None"
  by (auto simp: removeRapidAPI_def split: sum.splits dest: read_job_success)

lemma removeCustom_outcome:
  "success (removeCustom api env u f) \<or> error (removeCustom api env u f) \<noteq> None"
  by (auto simp: removeCustom_def split: sum.splits if_splits dest: read_job_success)

lemma removeWatermark_recognized:
  assumes "provider api \<in> set recognized"
  shows "\<exists>r. removeWatermark api env u f = Inr r \<and> (success r \<or> error r \<noteq> None)"
  using assms removeWithFluxKontext_outcome[of api env u f] removeLightPDF_outcome[of api env u f]
    removeWatermarkRemover_outcome[of api env u f] removeRapidAPI_outcome[of api env u f]
    removeCustom_outcome[of api env u f]
  by (auto simp: removeWatermark_def recognized_def)

lemma removeWatermark_unrecognized:
  "provider api \<notin> set recognized \<Longrightarrow>
   removeWatermark api env u f = Inl (JsError ''Unsupported API provider'')"
  by (simp add: removeWatermark_def recognized_def)

lemma single_attempt:
  assumes "provider api \<in> set recognized"
  shows "\<exists>r. retryWithBackoff (\<lambda>k. removeWatermark api (nw k) u f) retries delay l =
           (Inr r, l\<lparr>calls := Suc (calls l)\<rparr>)
         \<and> removeWatermark api (nw (calls l)) u f = Inr r"
proof -
  obtain r where "removeWatermark api (nw (calls l)) u f = Inr r"
    using removeWatermark_recognized[OF assms] by blast
  then show ?thesis
    using retry_resolved[of "\<lambda>k. removeWatermark api (nw k) u f" l r] by blast
qed

lemma fal_local_url:
  "provider api = ''fal'' \<Longrightarrow> startsWith u ''/'' \<or> includes_str u ''placeholder.svg'' \<Longrightarrow>
   removeWatermark api env u f =
     Inr (failure (JsError
       ''Image URL must be publicly accessible. Local URLs are not supported by Fal.ai'') [])"
  by (simp add: removeWatermark_def removeWithFluxKontext_def flux_try_def failure_def)

lemma probe_image_fails:
  "(case probe env of Inl e \<Rightarrow> True | Inr r \<Rightarrow> \<not> ok r) \<Longrightarrow>
   probe_image env u = Inl (JsError (''Cannot access image URL: '' @ u))"
  by (auto simp: probe_image_def split: sum.splits)

lemma fal_probe_fails:
  "provider api = ''fal'' \<Longrightarrow> \<not> startsWith u ''/'' \<Longrightarrow> \<not> includes_str u ''placeholder.svg'' \<Longrightarrow>
   (case probe env of Inl e \<Rightarrow> True | Inr r \<Rightarrow> \<not> ok r) \<Longrightarrow>
   removeWatermark api env u f = Inr (failure (JsError (''Cannot access image URL: '' @ u)) [])"
  by (simp add: removeWatermark_def removeWithFluxKontext_def flux_try_def probe_image_fails failure_def)

lemma fal_status_not_ok:
  "provider api = ''fal'' \<Longrightarrow> post env = Inr resp \<Longrightarrow> \<not> ok resp \<Longrightarrow>
   \<exists>m. removeWatermark api env u f =
     Inr \<lparr>success = False, processedImageUrl = None, error = Some m, jobId = None\<rparr>"
  by (auto simp: removeWatermark_def removeWithFluxKontext_def flux_try_def failure_def
      split: sum.splits)

lemma lightpdf_status_not_ok:
  "provider api = ''lightpdf'' \<Longrightarrow> upload env = Inr resp \<Longrightarrow> \<not> ok resp \<Longrightarrow>
   removeWatermark api env u f = Inr (failure (JsError (''Upload failed: '' @ statusText resp)) [])"
  by (simp add: removeWatermark_def removeLightPDF_def lightpdf_try_def failure_def)


lemma processImageWithRetry_single_attempt:
  assumes "provider api \<in> set recognized"
  shows "snd (processImageWithRetry api nw u f) = \<lparr>calls = 1, waits = []\<rparr>"
proof -
  obtain r where
    "retryWithBackoff (\<lambda>k. removeWatermark api (nw k) u f)
       (maxRetries RETRY_CONFIG) (retryDelay RETRY_CONFIG) \<lparr>calls = 0, waits = []\<rparr> =
     (Inr r, \<lparr>calls = 0, waits = []\<rparr>\<lparr>calls := Suc (calls \<lparr>calls = 0, waits = []\<rparr>)\<rparr>)"
    using single_attempt[OF assms] by blast
  then show ?thesis
    by (simp add: processImageWithRetry_def)
qed

lemma fal_table:
  assumes "provider api = ''fal''"
  shows
   "(\<not> public_url u \<longrightarrow>
       removeWatermark api env u f = Inr (failure (JsError
         ''Image URL must be publicly accessible. Local URLs are not supported by Fal.ai'') []))
    \<and> (public_url u \<and> \<not> probed env \<longrightarrow>
       removeWatermark api env u f = Inr (failure (JsError (''Cannot access image URL: '' @ u)) []))
    \<and> (public_url u \<and> probed env \<and> post env = Inl e \<longrightarrow>
       removeWatermark api env u f = Inr (failure e ''Unknown error occurred''))
    \<and> (public_url u \<and> probed env \<and> post env = Inr fresp \<and> resp_text fresp = Inl e \<longrightarrow>
       removeWatermark api env u f = Inr (failure e ''Unknown error occurred''))
    \<and> (public_url u \<and> probed env \<and> post env = Inr fresp \<and> resp_text fresp = Inr t
        \<and> \<not> ok fresp \<longrightarrow>
         (json fresp = Inl e \<longrightarrow>
            removeWatermark api env u f = Inr (failure (JsError
              (''Fal API error: '' @ string_of_nat (http_status fresp) @ '' - ''
                 @ statusText fresp @ ''. Response: '' @ take 100 t)) []))
       \<and> (json fresp = Inr d \<and> http_status fresp = 422
            \<and> detail0_file_download_error d = Inl e \<longrightarrow>
            removeWatermark api env u f = Inr (failure e ''Unknown error occurred''))
       \<and> (json fresp = Inr d \<and> http_status fresp = 422
            \<and> detail0_file_download_error d = Inr True \<longrightarrow>
            removeWatermark api env u f = Inr (failure (JsError
              (''Cannot download image from URL: '' @ u
                 @ ''. Please ensure the URL is publicly accessible.'')) []))
       \<and> (json fresp = Inr d \<and> http_status fresp = 401 \<longrightarrow>
            removeWatermark api env u f = Inr (failure (JsError
              ''Invalid API key. Please check your Fal.ai API key.'') []))
       \<and> (json fresp = Inr d \<and> http_status fresp = 403 \<longrightarrow>
            removeWatermark api env u f = Inr (failure (JsError
              ''Access forbidden. Please check your Fal.ai API key permissions.'') []))
       \<and> (json fresp = Inr d \<and> http_status fresp \<noteq> 401 \<and> http_status fresp \<noteq> 403
            \<and> (http_status fresp = 422 \<longrightarrow> detail0_file_download_error d = Inr False)
            \<and> detail d = Inl e \<longrightarrow>
            removeWatermark api env u f = Inr (failure e ''Unknown error occurred''))
       \<and> (json fresp = Inr d \<and> http_status fresp \<noteq> 401 \<and> http_status fresp \<noteq> 403
            \<and> (http_status fresp = 422 \<longrightarrow> detail0_file_download_error d = Inr False)
            \<and> detail d = Inr dt \<longrightarrow>
            removeWatermark api env u f = Inr (failure (JsError
              (''Fal API error: '' @ string_of_nat (http_status fresp) @ '' - ''
                 @ or_else dt (statusText fresp))) [])))
    \<and> (public_url u \<and> probed env \<and> post env = Inr fresp \<and> resp_text fresp = Inr t
        \<and> ok fresp \<longrightarrow>
         (json fresp = Inl e \<longrightarrow>
            removeWatermark api env u f = Inr (failure (JsError
              (''Invalid JSON response from Fal.ai: '' @ take 100 t)) []))
       \<and> (json fresp = Inr d \<and> has_images d = Inl e \<longrightarrow>
            removeWatermark api env u f = Inr (failure e ''Unknown error occurred''))
       \<and> (json fresp = Inr d \<and> has_images d = Inr False \<longrightarrow>
            removeWatermark api env u f = Inr (failure (JsError
              ''No processed images returned from Flux Kontext'') []))
       \<and> (json fresp = Inr d \<and> has_images d = Inr True \<and> images0_url d = Inl e \<longrightarrow>
            removeWatermark api env u f = Inr (failure e ''Unknown error occurred''))
       \<and> (json fresp = Inr d \<and> has_images d = Inr True \<and> images0_url d = Inr pu
            \<and> request_id d = Inl e \<longrightarrow>
            removeWatermark api env u f = Inr (failure e ''Unknown error occurred''))
       \<and> (json fresp = Inr d \<and> has_images d = Inr True \<and> images0_url d = Inr pu
            \<and> request_id d = Inr rid \<longrightarrow>
            removeWatermark api env u f =
              Inr \<lparr>success = True, processedImageUrl = pu, error = None,
                   jobId = Some (or_else rid (''flux_'' @ string_of_nat (now env)))\<rparr>))"
proof -
  have fal: "removeWatermark api env u f = Inr (removeWithFluxKontext api env u f)"
    using assms by (simp add: removeWatermark_def)
  have probe: "probe_image env u = (if probed env then Inr () else
      Inl (JsError (''Cannot access image URL: '' @ u)))"
    by (simp add: probe_image_def probed_def split: sum.splits)
  show ?thesis
    unfolding fal
    by (intro conjI impI)
       (simp_all add: removeWithFluxKontext_def flux_try_def probe public_url_def fal_not_ok_def
          failure_def)
qed

lemma job_table:
  assumes "provider api = ''watermarkremover'' \<or> provider api = ''rapidapi''
           \<or> provider api = ''custom'' \<and> truthy (endpoint api)"
  shows
   "(request env = Inl e \<longrightarrow>
       removeWatermark api env u f = Inr (failure e ''Unknown error''))
    \<and> (request env = Inr resp \<and> \<not> ok resp \<longrightarrow>
       removeWatermark api env u f =
         Inr (failure (JsError (''API request failed: '' @ statusText resp)) []))
    \<and> (request env = Inr resp \<and> ok resp \<and> json resp = Inl e \<longrightarrow>
       removeWatermark api env u f = Inr (failure e ''Unknown error''))
    \<and> (request env = Inr resp \<and> ok resp \<and> json resp = Inr body \<and> out_url body = Inl e \<longrightarrow>
       removeWatermark api env u f = Inr (failure e ''Unknown error''))
    \<and> (request env = Inr resp \<and> ok resp \<and> json resp = Inr body \<and> out_url body = Inr pu
        \<and> out_id body = Inl e \<longrightarrow>
       removeWatermark api env u f = Inr (failure e ''Unknown error''))
    \<and> (request env = Inr resp \<and> ok resp \<and> json resp = Inr body \<and> out_url body = Inr pu
        \<and> out_id body = Inr j \<longrightarrow>
       removeWatermark api env u f =
         Inr \<lparr>success = True, processedImageUrl = pu, error = None, jobId = j\<rparr>)"
proof -
  have job: "removeWatermark api env u f =
      Inr (case read_job ''API request failed: '' (request env) of
             Inr r \<Rightarrow> r | Inl e \<Rightarrow> failure e ''Unknown error'')"
    using assms
    by (auto simp: removeWatermark_def removeWatermarkRemover_def removeRapidAPI_def removeCustom_def)
  show ?thesis
    unfolding job
    by (intro conjI impI) (simp_all add: read_job_def failure_def)
qed

lemma custom_unconfigured:
  assumes "provider api = ''custom''" and "\<not> truthy (endpoint api)"
  shows "removeWatermark api env u f =
           Inr (failure (JsError ''Custom endpoint not configured'') [])"
  using assms by (simp add: removeWatermark_def removeCustom_def failure_def)

lemma lightpdf_table:
  assumes "provider api = ''lightpdf''"
  shows
   "(upload env = Inl e \<longrightarrow>
       removeWatermark api env u f = Inr (failure e ''Unknown error''))
    \<and> (upload env = Inr up \<and> \<not> ok up \<longrightarrow>
       removeWatermark api env u f =
         Inr (failure (JsError (''Upload failed: '' @ statusText up)) []))
    \<and> (upload env = Inr up \<and> ok up \<and> json up = Inl e \<longrightarrow>
       removeWatermark api env u f = Inr (failure e ''Unknown error''))
    \<and> (upload env = Inr up \<and> ok up \<and> json up = Inr ub \<and> file_id ub = Inl e \<longrightarrow>
       removeWatermark api env u f = Inr (failure e ''Unknown error''))
    \<and> (uploaded env \<and> process env = Inl e \<longrightarrow>
       removeWatermark api env u f = Inr (failure e ''Unknown error''))
    \<and> (uploaded env \<and> process env = Inr resp \<and> \<not> ok resp \<longrightarrow>
       removeWatermark api env u f =
         Inr (failure (JsError (''Processing failed: '' @ statusText resp)) []))
    \<and> (uploaded env \<and> process env = Inr resp \<and> ok resp \<and> json resp = Inl e \<longrightarrow>
       removeWatermark api env u f = Inr (failure e ''Unknown error''))
    \<and> (uploaded env \<and> process env = Inr resp \<and> ok resp \<and> json resp = Inr body
        \<and> out_url body = Inl e \<longrightarrow>
       removeWatermark api env u f = Inr (failure e ''Unknown error''))
    \<and> (uploaded env \<and> process env = Inr resp \<and> ok resp \<and> json resp = Inr body
        \<and> out_url body = Inr pu \<and> out_id body = Inl e \<longrightarrow>
       removeWatermark api env u f = Inr (failure e ''Unknown error''))
    \<and> (uploaded env \<and> process env = Inr resp \<and> ok resp \<and> json resp = Inr body
        \<and> out_url body = Inr pu \<and> out_id body = Inr j \<longrightarrow>
       removeWatermark api env u f =
         Inr \<lparr>success = True, processedImageUrl = pu, error = None, jobId = j\<rparr>)"
proof -
  have light: "removeWatermark api env u f = Inr (removeLightPDF api env u f)"
    using assms by (simp add: removeWatermark_def)
  have up: "lightpdf_try env = read_job ''Processing failed: '' (process env)" if "uploaded env"
    using that by (auto simp: lightpdf_try_def uploaded_def split: sum.splits)
  show ?thesis
    unfolding light
    by (intro conjI impI)
       (simp_all add: removeLightPDF_def up read_job_def failure_def,
        simp_all add: lightpdf_try_def)
qed


lemma recognized_outcome:
  assumes "provider api \<in> set recognized"
  shows "\<exists>r. removeWatermark api env u f = Inr r
           \<and> (success r
               \<or> (\<exists>m. r = \<lparr>success = False, processedImageUrl = None, error = Some m,
                             jobId = None\<rparr>))"
proof -
  have shape: "\<exists>m. failure e d = \<lparr>success = False, processedImageUrl = None, error = Some m,
                                   jobId = None\<rparr>" for e d
    by (simp add: failure_def)
  have "success (case t of Inr r \<Rightarrow> r | Inl e \<Rightarrow> failure e d)
        \<or> (\<exists>m. (case t of Inr r \<Rightarrow> r | Inl e \<Rightarrow> failure e d) =
               \<lparr>success = False, processedImageUrl = None, error = Some m, jobId = None\<rparr>)"
    if "\<And>r. t = Inr r \<Longrightarrow> success r" for t :: "thrown + WatermarkRemovalResult" and d
    using that shape by (cases t) simp_all
  note either = this
  have fal: "success (removeWithFluxKontext api env u f)
      \<or> (\<exists>m. removeWithFluxKontext api env u f =
             \<lparr>success = False, processedImageUrl = None, error = Some m, jobId = None\<rparr>)"
    unfolding removeWithFluxKontext_def by (rule either) (rule flux_try_success)
  have light: "success (removeLightPDF api env u f)
      \<or> (\<exists>m. removeLightPDF api env u f =
             \<lparr>success = False, processedImageUrl = None, error = Some m, jobId = None\<rparr>)"
    unfolding removeLightPDF_def by (rule either) (rule lightpdf_try_success)
  have remover: "success (removeWatermarkRemover api env u f)
      \<or> (\<exists>m. removeWatermarkRemover api env u f =
             \<lparr>success = False, processedImageUrl = None, error = Some m, jobId = None\<rparr>)"
    unfolding removeWatermarkRemover_def by (rule either) (rule read_job_success)
  have rapid: "success (removeRapidAPI api env u f)
      \<or> (\<exists>m. removeRapidAPI api env u f =
             \<lparr>success = False, processedImageUrl = None, error = Some m, jobId = None\<rparr>)"
    unfolding removeRapidAPI_def by (rule either) (rule read_job_success)
  have custom: "success (removeCustom api env u f)
      \<or> (\<exists>m. removeCustom api env u f =
             \<lparr>success = False, processedImageUrl = None, error = Some m, jobId = None\<rparr>)"
    unfolding removeCustom_def
    by (rule either) (auto split: if_splits dest: read_job_success)
  show ?thesis
    using assms fal light remover rapid custom
    by (auto simp: removeWatermark_def recognized_def)
qed

text \<open>
  C10. For each of the five recognized providers \<^verbatim>\<open>removeWatermark\<close> resolves, with
  \<^verbatim>\<open>success: true\<close> or with \<^verbatim>\<open>success: false\<close> and an error message, and the
  retry wrapper around it returns after that single call; only an unrecognized
  provider string rejects. Adapter by adapter, every way in which a call can fail (a
  local URL, a failed probe, a rejected fetch, a non-success status, a body that does
  not parse, a read of the body that throws, a response without images, LightPDF's
  upload or its processing step, a custom endpoint that is not configured) resolves
  with \<^verbatim>\<open>success: false\<close> and the message given; a call resolves with
  \<^verbatim>\<open>success: true\<close> only when every step has succeeded.
\<close>

theorem removeWatermark_rejects_only_unrecognized:
  "(provider api \<in> set recognized \<longrightarrow>
      (\<exists>r. removeWatermark api env u f = Inr r
         \<and> (success r
             \<or> (\<exists>m. r = \<lparr>success = False, processedImageUrl = None, error = Some m,
                           jobId = None\<rparr>))))
   \<and> (provider api \<in> set recognized \<longrightarrow>
      (\<exists>r. retryWithBackoff (\<lambda>k. removeWatermark api (nw k) u f) retries delay l =
             (Inr r, l\<lparr>calls := Suc (calls l)\<rparr>)))
   \<and> (provider api \<notin> set recognized \<longrightarrow>
      removeWatermark api env u f = Inl (JsError ''Unsupported API provider''))
   \<and> (provider api = ''fal'' \<longrightarrow>
     (\<not> public_url u \<longrightarrow>
            removeWatermark api env u f = Inr (failure (JsError
              ''Image URL must be publicly accessible. Local URLs are not supported by Fal.ai'') []))
         \<and> (public_url u \<and> \<not> probed env \<longrightarrow>
            removeWatermark api env u f = Inr (failure (JsError (''Cannot access image URL: '' @ u)) []))
         \<and> (public_url u \<and> probed env \<and> post env = Inl e \<longrightarrow>
            removeWatermark api env u f = Inr (failure e ''Unknown error occurred''))
         \<and> (public_url u \<and> probed env \<and> post env = Inr fresp \<and> resp_text fresp = Inl e \<longrightarrow>
            removeWatermark api env u f = Inr (failure e ''Unknown error occurred''))
         \<and> (public_url u \<and> probed env \<and> post env = Inr fresp \<and> resp_text fresp = Inr t
             \<and> \<not> ok fresp \<longrightarrow>
              (json fresp = Inl e \<longrightarrow>
                 removeWatermark api env u f = Inr (failure (JsError
                   (''Fal API error: '' @ string_of_nat (http_status fresp) @ '' - ''
                      @ statusText fresp @ ''. Response: '' @ take 100 t)) []))
            \<and> (json fresp = Inr d \<and> http_status fresp = 422
                 \<and> detail0_file_download_error d = Inl e \<longrightarrow>
                 removeWatermark api env u f = Inr (failure e ''Unknown error occurred''))
            \<and> (json fresp = Inr d \<and> http_status fresp = 422
                 \<and> detail0_file_download_error d = Inr True \<longrightarrow>
                 removeWatermark api env u f = Inr (failure (JsError
                   (''Cannot download image from URL: '' @ u
                      @ ''. Please ensure the URL is publicly accessible.'')) []))
            \<and> (json fresp = Inr d \<and> http_status fresp = 401 \<longrightarrow>
                 removeWatermark api env u f = Inr (failure (JsError
                   ''Invalid API key. Please check your Fal.ai API key.'') []))
            \<and> (json fresp = Inr d \<and> http_status fresp = 403 \<longrightarrow>
                 removeWatermark api env u f = Inr (failure (JsError
                   ''Access forbidden. Please check your Fal.ai API key permissions.'') []))
            \<and> (json fresp = Inr d \<and> http_status fresp \<noteq> 401 \<and> http_status fresp \<noteq> 403
                 \<and> (http_status fresp = 422 \<longrightarrow> detail0_file_download_error d = Inr False)
                 \<and> detail d = Inl e \<longrightarrow>
                 removeWatermark api env u f = Inr (failure e ''Unknown error occurred''))
            \<and> (json fresp = Inr d \<and> http_status fresp \<noteq> 401 \<and> http_status fresp \<noteq> 403
                 \<and> (http_status fresp = 422 \<longrightarrow> detail0_file_download_error d = Inr False)
                 \<and> detail d = Inr dt \<longrightarrow>
                 removeWatermark api env u f = Inr (failure (JsError
                   (''Fal API error: '' @ string_of_nat (http_status fresp) @ '' - ''
                      @ or_else dt (statusText fresp))) [])))
         \<and> (public_url u \<and> probed env \<and> post env = Inr fresp \<and> resp_text fresp = Inr t
             \<and> ok fresp \<longrightarrow>
              (json fresp = Inl e \<longrightarrow>
                 removeWatermark api env u f = Inr (failure (JsError
                   (''Invalid JSON response from Fal.ai: '' @ take 100 t)) []))
            \<and> (json fresp = Inr d \<and> has_images d = Inl e \<longrightarrow>
                 removeWatermark api env u f = Inr (failure e ''Unknown error occurred''))
            \<and> (json fresp = Inr d \<and> has_images d = Inr False \<longrightarrow>
                 removeWatermark api env u f = Inr (failure (JsError
                   ''No processed images returned from Flux Kontext'') []))
            \<and> (json fresp = Inr d \<and> has_images d = Inr True \<and> images0_url d = Inl e \<longrightarrow>
                 removeWatermark api env u f = Inr (failure e ''Unknown error occurred''))
            \<and> (json fresp = Inr d \<and> has_images d = Inr True \<and> images0_url d = Inr pu
                 \<and> request_id d = Inl e \<longrightarrow>
                 removeWatermark api env u f = Inr (failure e ''Unknown error occurred''))
            \<and> (json fresp = Inr d \<and> has_images d = Inr True \<and> images0_url d = Inr pu
                 \<and> request_id d = Inr rid \<longrightarrow>
                 removeWatermark api env u f =
                   Inr \<lparr>success = True, processedImageUrl = pu, error = None,
                        jobId = Some (or_else rid (''flux_'' @ string_of_nat (now env)))\<rparr>)))
   \<and> (provider api = ''lightpdf'' \<longrightarrow>
     (upload env = Inl e \<longrightarrow>
            removeWatermark api env u f = Inr (failure e ''Unknown error''))
         \<and> (upload env = Inr up \<and> \<not> ok up \<longrightarrow>
            removeWatermark api env u f =
              Inr (failure (JsError (''Upload failed: '' @ statusText up)) []))
         \<and> (upload env = Inr up \<and> ok up \<and> json up = Inl e \<longrightarrow>
            removeWatermark api env u f = Inr (failure e ''Unknown error''))
         \<and> (upload env = Inr up \<and> ok up \<and> json up = Inr ub \<and> file_id ub = Inl e \<longrightarrow>
            removeWatermark api env u f = Inr (failure e ''Unknown error''))
         \<and> (uploaded env \<and> process env = Inl e \<longrightarrow>
            removeWatermark api env u f = Inr (failure e ''Unknown error''))
         \<and> (uploaded env \<and> process env = Inr resp \<and> \<not> ok resp \<longrightarrow>
            removeWatermark api env u f =
              Inr (failure (JsError (''Processing failed: '' @ statusText resp)) []))
         \<and> (uploaded env \<and> process env = Inr resp \<and> ok resp \<and> json resp = Inl e \<longrightarrow>
            removeWatermark api env u f = Inr (failure e ''Unknown error''))
         \<and> (uploaded env \<and> process env = Inr resp \<and> ok resp \<and> json resp = Inr body
             \<and> out_url body = Inl e \<longrightarrow>
            removeWatermark api env u f = Inr (failure e ''Unknown error''))
         \<and> (uploaded env \<and> process env = Inr resp \<and> ok resp \<and> json resp = Inr body
             \<and> out_url body = Inr pu \<and> out_id body = Inl e \<longrightarrow>
            removeWatermark api env u f = Inr (failure e ''Unknown error''))
         \<and> (uploaded env \<and> process env = Inr resp \<and> ok resp \<and> json resp = Inr body
             \<and> out_url body = Inr pu \<and> out_id body = Inr j \<longrightarrow>
            removeWatermark api env u f =
              Inr \<lparr>success = True, processedImageUrl = pu, error = None, jobId = j\<rparr>))
   \<and> (provider api = ''watermarkremover'' \<or> provider api = ''rapidapi''
        \<or> provider api = ''custom'' \<and> truthy (endpoint api) \<longrightarrow>
     (request env = Inl e \<longrightarrow>
            removeWatermark api env u f = Inr (failure e ''Unknown error''))
         \<and> (request env = Inr resp \<and> \<not> ok resp \<longrightarrow>
            removeWatermark api env u f =
              Inr (failure (JsError (''API request failed: '' @ statusText resp)) []))
         \<and> (request env = Inr resp \<and> ok resp \<and> json resp = Inl e \<longrightarrow>
            removeWatermark api env u f = Inr (failure e ''Unknown error''))
         \<and> (request env = Inr resp \<and> ok resp \<and> json resp = Inr body \<and> out_url body = Inl e \<longrightarrow>
            removeWatermark api env u f = Inr (failure e ''Unknown error''))
         \<and> (request env = Inr resp \<and> ok resp \<and> json resp = Inr body \<and> out_url body = Inr pu
             \<and> out_id body = Inl e \<longrightarrow>
            removeWatermark api env u f = Inr (failure e ''Unknown error''))
         \<and> (request env = Inr resp \<and> ok resp \<and> json resp = Inr body \<and> out_url body = Inr pu
             \<and> out_id body = Inr j \<longrightarrow>
            removeWatermark api env u f =
              Inr \<lparr>success = True, processedImageUrl = pu, error = None, jobId = j\<rparr>))
   \<and> (provider api = ''custom'' \<and> \<not> truthy (endpoint api) \<longrightarrow>
      removeWatermark api env u f =
        Inr (failure (JsError ''Custom endpoint not configured'') []))"
proof -
  have resolves: "provider api \<in> set recognized \<longrightarrow>
      (\<exists>r. removeWatermark api env u f = Inr r
         \<and> (success r
             \<or> (\<exists>m. r = \<lparr>success = False, processedImageUrl = None, error = Some m,
                           jobId = None\<rparr>)))"
    by (rule impI) (rule recognized_outcome)
  have once: "provider api \<in> set recognized \<longrightarrow>
      (\<exists>r. retryWithBackoff (\<lambda>k. removeWatermark api (nw k) u f) retries delay l =
             (Inr r, l\<lparr>calls := Suc (calls l)\<rparr>))"
    using single_attempt[of api nw u f retries delay l] by blast
  have rejects: "provider api \<notin> set recognized \<longrightarrow>
      removeWatermark api env u f = Inl (JsError ''Unsupported API provider'')"
    by (rule impI) (rule removeWatermark_unrecognized)
  have custom: "provider api = ''custom'' \<and> \<not> truthy (endpoint api) \<longrightarrow>
      removeWatermark api env u f =
        Inr (failure (JsError ''Custom endpoint not configured'') [])"
    by (rule impI) (rule custom_unconfigured, simp_all)
  show ?thesis
    by (intro conjI resolves once rejects custom)
       ((rule impI, rule fal_table, assumption)
        | (rule impI, rule lightpdf_table, assumption)
        | (rule impI, rule job_table, assumption))+
qed


theorem removeWatermark_rejects_only_unrecognized_witness:
  "provider fal_api \<in> set recognized
   \<and> removeWatermark fal_api offline example_url ''a.jpg'' =
       Inr (failure (JsError (''Cannot access image URL: '' @ example_url)) [])
   \<and> retryWithBackoff (\<lambda>k. removeWatermark fal_api offline example_url ''a.jpg'') 3 2000
         \<lparr>calls = 0, waits = []\<rparr> =
       (Inr (failure (JsError (''Cannot access image URL: '' @ example_url)) []),
        \<lparr>calls = 1, waits = []\<rparr>)
   \<and> removeWatermark fal_api offline ''/placeholder.svg'' ''a.jpg'' =
       Inr (failure (JsError
          ''Image URL must be publicly accessible. Local URLs are not supported by Fal.ai'') [])
   \<and> removeWatermark fal_api unauthorized example_url ''a.jpg'' =
       Inr (failure (JsError ''Invalid API key. Please check your Fal.ai API key.'') [])
   \<and> removeWatermark rapid_api failing_server example_url ''a.jpg'' =
       Inr (failure (JsError ''API request failed: Internal Server Error'') [])
   \<and> removeWatermark lightpdf_api upload_only example_url ''a.jpg'' =
       Inr (failure (JsError ''Processing failed: Internal Server Error'') [])
   \<and> removeWatermark custom_api offline example_url ''a.jpg'' =
       Inr (failure (JsError ''Custom endpoint not configured'') [])
   \<and> provider unknown_api \<notin> set recognized
   \<and> removeWatermark unknown_api offline example_url ''a.jpg'' =
       Inl (JsError ''Unsupported API provider'')"
proof -
  note claim = removeWatermark_rejects_only_unrecognized
  have known: "provider fal_api \<in> set recognized"
    by (simp add: fal_api_def recognized_def)
  have unknown: "provider unknown_api \<notin> set recognized"
    by (simp add: unknown_api_def recognized_def)
  have providers: "provider fal_api = ''fal''" "provider rapid_api = ''rapidapi''"
    "provider lightpdf_api = ''lightpdf''" "provider custom_api = ''custom''"
    "\<not> truthy (endpoint custom_api)"
    by (simp_all add: fal_api_def rapid_api_def lightpdf_api_def custom_api_def)
  have urls: "public_url example_url" "\<not> public_url ''/placeholder.svg''"
    by (simp_all add: public_url_def example_url_def startsWith_def)
  have down: "\<not> probed offline"
    by (simp add: probed_def offline_def)
  have refused: "probed unauthorized"
    "post unauthorized = Inr \<lparr>http_status = 401, statusText = ''Unauthorized'',
       resp_text = Inr ''{}'',
       json = Inr \<lparr>detail0_file_download_error = Inr False, detail = Inr None,
                    has_images = Inr False, images0_url = Inr None, request_id = Inr None\<rparr>\<rparr>"
    by (simp_all add: probed_def unauthorized_def ok_def)
  have server: "request failing_server =
      Inr \<lparr>http_status = 500, statusText = ''Internal Server Error'', resp_text = Inr [],
           json = Inl (JsError ''Unexpected end of JSON input'')\<rparr>"
    "uploaded upload_only"
    "process upload_only =
      Inr \<lparr>http_status = 500, statusText = ''Internal Server Error'', resp_text = Inr [],
           json = Inl (JsError ''Unexpected end of JSON input'')\<rparr>"
    by (simp_all add: failing_server_def upload_only_def uploaded_def ok_def)
  have a: "removeWatermark fal_api offline example_url ''a.jpg'' =
       Inr (failure (JsError (''Cannot access image URL: '' @ example_url)) [])"
    using claim[where api = fal_api and env = offline and u = example_url and f = "''a.jpg''"]
      providers urls down
    by simp
  have b: "\<exists>r. retryWithBackoff (\<lambda>k. removeWatermark fal_api offline example_url ''a.jpg'') 3 2000
         \<lparr>calls = 0, waits = []\<rparr> = (Inr r, \<lparr>calls = 1, waits = []\<rparr>)"
    using claim[where api = fal_api and nw = "\<lambda>k. offline" and u = example_url and f = "''a.jpg''"
                  and retries = 3 and delay = 2000 and l = "\<lparr>calls = 0, waits = []\<rparr>"]
      known
    by simp
  have c: "removeWatermark fal_api offline ''/placeholder.svg'' ''a.jpg'' =
       Inr (failure (JsError
          ''Image URL must be publicly accessible. Local URLs are not supported by Fal.ai'') [])"
    using claim[where api = fal_api and env = offline and u = "''/placeholder.svg''"
                  and f = "''a.jpg''"]
      providers urls
    by simp
  have d: "removeWatermark fal_api unauthorized example_url ''a.jpg'' =
       Inr (failure (JsError ''Invalid API key. Please check your Fal.ai API key.'') [])"
    using claim[where api = fal_api and env = unauthorized and u = example_url and f = "''a.jpg''"
                  and fresp = "\<lparr>http_status = 401, statusText = ''Unauthorized'',
       resp_text = Inr ''{}'',
       json = Inr \<lparr>detail0_file_download_error = Inr False, detail = Inr None,
                    has_images = Inr False, images0_url = Inr None, request_id = Inr None\<rparr>\<rparr>"
                  and t = "''{}''"]
      providers urls refused
    by (simp add: ok_def)
  have e: "removeWatermark rapid_api failing_server example_url ''a.jpg'' =
       Inr (failure (JsError ''API request failed: Internal Server Error'') [])"
    using claim[where api = rapid_api and env = failing_server and u = example_url
                  and f = "''a.jpg''"
                  and resp = "\<lparr>http_status = 500, statusText = ''Internal Server Error'',
                     resp_text = Inr [], json = Inl (JsError ''Unexpected end of JSON input'')\<rparr>"]
      providers server
    by (simp add: ok_def)
  have f: "removeWatermark lightpdf_api upload_only example_url ''a.jpg'' =
       Inr (failure (JsError ''Processing failed: Internal Server Error'') [])"
    using claim[where api = lightpdf_api and env = upload_only and u = example_url
                  and f = "''a.jpg''"
                  and resp = "\<lparr>http_status = 500, statusText = ''Internal Server Error'',
                     resp_text = Inr [], json = Inl (JsError ''Unexpected end of JSON input'')\<rparr>"]
      providers server
    by (simp add: ok_def)
  have g: "removeWatermark custom_api offline example_url ''a.jpg'' =
       Inr (failure (JsError ''Custom endpoint not configured'') [])"
    using claim[where api = custom_api and env = offline and u = example_url and f = "''a.jpg''"]
      providers
    by simp
  have h: "removeWatermark unknown_api offline example_url ''a.jpg'' =
       Inl (JsError ''Unsupported API provider'')"
    using claim[where api = unknown_api and env = offline and u = example_url and f = "''a.jpg''"]
      unknown
    by simp
  from a b have b': "retryWithBackoff (\<lambda>k. removeWatermark fal_api offline example_url ''a.jpg'') 3 2000
         \<lparr>calls = 0, waits = []\<rparr> =
       (Inr (failure (JsError (''Cannot access image URL: '' @ example_url)) []),
        \<lparr>calls = 1, waits = []\<rparr>)"
    by (simp add: retryWithBackoff.simps)
  show ?thesis
    by (intro conjI known a b' c d e f g unknown h)
qed

text \<open>
  C1. A task whose provider call fails on every attempt (the network is down, so the
  probe of the image URL fails each time) is attempted once, with no wait, and yields
  an error result: the Fal adapter resolves its failure, and the retry wrapper retries
  rejections only. The wrapper itself follows the series: under a provider string that
  the \<^verbatim>\<open>switch\<close> rejects it makes 4 attempts, waits 2000, 4000 and 8000 ms, and hands
  the last rejection on.
\<close>

theorem failing_provider_call_is_attempted_once:
  "processImageWithRetry fal_api (\<lambda>k. offline) example_url ''a.jpg'' =
     (\<lparr>originalUrl = example_url, processedUrl = example_url, filename = ''a.jpg'',
       status = Error, message = Some (''Cannot access image URL: '' @ example_url),
       result_jobId = None\<rparr>,
      \<lparr>calls = 1, waits = []\<rparr>)
   \<and> processImageWithRetry unknown_api (\<lambda>k. offline) example_url ''a.jpg'' =
     (\<lparr>originalUrl = example_url, processedUrl = example_url, filename = ''a.jpg'',
       status = Error, message = Some ''Unsupported API provider'', result_jobId = None\<rparr>,
      \<lparr>calls = 4, waits = [2000, 4000, 8000]\<rparr>)"
proof -
  have remote: "\<not> startsWith example_url ''/''" "\<not> includes_str example_url ''placeholder.svg''"
    by (simp_all add: example_url_def startsWith_def)
  have "removeWatermark fal_api offline example_url ''a.jpg'' =
          Inr (failure (JsError (''Cannot access image URL: '' @ example_url)) [])"
    using remote by (simp add: fal_probe_fails fal_api_def offline_def)
  then have once: "retryWithBackoff (\<lambda>k. removeWatermark fal_api offline example_url ''a.jpg'')
       (maxRetries RETRY_CONFIG) (retryDelay RETRY_CONFIG) \<lparr>calls = 0, waits = []\<rparr> =
     (Inr (failure (JsError (''Cannot access image URL: '' @ example_url)) []), \<lparr>calls = 1, waits = []\<rparr>)"
    by (simp add: retry_resolved)
  have "\<forall>k::nat. removeWatermark unknown_api offline example_url ''a.jpg'' =
          Inl (JsError ''Unsupported API provider'')"
    by (simp add: removeWatermark_unrecognized unknown_api_def recognized_def)
  from retry_rejected[where e = "\<lambda>k. JsError ''Unsupported API provider''" and retries = 3
         and delay = 2000 and l = "\<lparr>calls = 0, waits = []\<rparr>", OF this]
  have series: "retryWithBackoff (\<lambda>k. removeWatermark unknown_api offline example_url ''a.jpg'')
       (maxRetries RETRY_CONFIG) (retryDelay RETRY_CONFIG) \<lparr>calls = 0, waits = []\<rparr> =
     (Inl (JsError ''Unsupported API provider''), \<lparr>calls = 4, waits = [2000, 4000, 8000]\<rparr>)"
    by (simp add: RETRY_CONFIG_def upt_three)
  show ?thesis
    unfolding processImageWithRetry_def once series by (simp add: failure_def)
qed


section \<open>The polling endpoint\<close>

text \<open>
  C8, as the code has it. The handler tests \<^verbatim>\<open>!sessionId\<close>, so an empty
  \<^verbatim>\<open>sessionId\<close> counts as a missing one: a missing or empty \<^verbatim>\<open>sessionId\<close> is
  answered with status 400, a non-empty one that the store does not know with status
  404, and any other with the session's current snapshot.
\<close>

theorem GET_progress_statuses:
  "(\<not> truthy sessionId_param \<longrightarrow> GET store sessionId_param = Failure 400 ''Session ID required'')
   \<and> (truthy sessionId_param \<and> store sessionId_param = None \<longrightarrow>
        GET store sessionId_param = Failure 404 ''Session not found'')
   \<and> (truthy sessionId_param \<and> store sessionId_param = Some p \<longrightarrow>
        GET store sessionId_param = Json p)"
  by (simp add: GET_def)

theorem GET_progress_statuses_witness:
  "GET Map.empty None = Failure 400 ''Session ID required''
   \<and> GET Map.empty (Some ''session_1'') = Failure 404 ''Session not found''
   \<and> GET [Some ''session_1'' \<mapsto> sample_progress] (Some ''session_1'') = Json sample_progress"
  using GET_progress_statuses[of None Map.empty]
    GET_progress_statuses[of "Some ''session_1''" Map.empty]
    GET_progress_statuses[of "Some ''session_1''" "[Some ''session_1'' \<mapsto> sample_progress]" sample_progress]
  by simp


text \<open>
  C8 as stated fails for \<^verbatim>\<open>GET /process?sessionId=\<close>: the parameter is present and
  empty. Unknown to the store, it is answered with 400 and not with 404; known to the
  store (a batch was posted under the empty id), it is answered with 400 and not with
  the snapshot.
\<close>

theorem GET_progress_empty_sessionId_counterexample:
  "(Map.empty :: progressStore) (Some []) = None
   \<and> status_code (GET Map.empty (Some [])) = 400
   \<and> [Some [] \<mapsto> sample_progress] (Some []) = Some sample_progress
   \<and> GET [Some [] \<mapsto> sample_progress] (Some []) = Failure 400 ''Session ID required''"
  by (simp add: GET_def)


section \<open>The status route\<close>

text \<open>
  C9. Two credential values with the same first four characters and the same length,
  all other environment variables being equal, give the same response of
  \<^verbatim>\<open>GET /status\<close>, whichever of the two variables carries the credential.
\<close>

theorem status_depends_on_prefix_and_length:
  assumes "take 4 k1 = take 4 k2" and "length k1 = length k2"
  shows "GET_status (env\<lparr>FAL_KEY := Some k1\<rparr>) = GET_status (env\<lparr>FAL_KEY := Some k2\<rparr>)
       \<and> GET_status (env\<lparr>FAL_API_KEY := Some k1\<rparr>) = GET_status (env\<lparr>FAL_API_KEY := Some k2\<rparr>)"
proof -
  have empty: "k1 = [] \<longleftrightarrow> k2 = []"
    using assms(2) by (metis length_0_conv)
  show ?thesis
  proof (cases "k1 = []")
    case True
    with empty show ?thesis by simp
  next
    case False
    with empty have "k2 \<noteq> []" by simp
    with False assms show ?thesis
      by (cases "FAL_KEY env") (simp_all add: GET_status_def Let_def)
  qed
qed

theorem status_depends_on_prefix_and_length_witness:
  "''fal-secret-one'' \<noteq> ''fal-secret-two''
   \<and> take 4 ''fal-secret-one'' = take 4 ''fal-secret-two''
   \<and> length ''fal-secret-one'' = length ''fal-secret-two''
   \<and> GET_status (no_env\<lparr>FAL_KEY := Some ''fal-secret-one''\<rparr>) =
       GET_status (no_env\<lparr>FAL_KEY := Some ''fal-secret-two''\<rparr>)
   \<and> GET_status (no_env\<lparr>FAL_KEY := Some ''fal-secret-one''\<rparr>) =
       Json \<lparr>demoMode = False, apiConfigured = True, apiKeyFormat = ''valid'',
             status_provider = ''fal'',
             status_message = ''Fal.ai API key configured (format looks correct)'',
             keyLength = 14, keyPrefix = Some ''fal-...'', emailConfigured = False,
             passwordConfigured = False\<rparr>"
proof -
  have same: "take 4 ''fal-secret-one'' = take 4 ''fal-secret-two''"
    "length ''fal-secret-one'' = length ''fal-secret-two''"
    by simp_all
  show ?thesis
    using status_depends_on_prefix_and_length[OF same, of no_env] same
    by (simp add: GET_status_def no_env_def Let_def)
qed


section \<open>Demo mode\<close>

lemma demo_results_eval:
  "demo_results =
     [\<lparr>originalUrl = ''/placeholder.svg?height=400&width=600&text=Sample+Image+1+with+Watermark'',
       processedUrl = ''/placeholder.svg?height=400&width=600&text=Sample+Image+1+Watermark+Removed'',
       filename = ''sample_1.jpg'', status = Success,
       message = Some ''Demo processing completed'', result_jobId = None\<rparr>,
      \<lparr>originalUrl = ''/placeholder.svg?height=400&width=600&text=Sample+Image+2+with+Watermark'',
       processedUrl = ''/placeholder.svg?height=400&width=600&text=Sample+Image+2+Watermark+Removed'',
       filename = ''sample_2.jpg'', status = Success,
       message = Some ''Demo processing completed'', result_jobId = None\<rparr>,
      \<lparr>originalUrl = ''/placeholder.svg?height=400&width=600&text=Sample+Image+3+with+Watermark'',
       processedUrl = ''/placeholder.svg?height=400&width=600&text=Sample+Image+3+Watermark+Removed'',
       filename = ''sample_3.jpg'', status = Success,
       message = Some ''Demo processing completed'', result_jobId = None\<rparr>]"
  by (simp add: demo_results_def sampleImages_def startsWith_def)


text \<open>
  C5. When \<^verbatim>\<open>DEMO_MODE\<close> is \<^verbatim>\<open>"true"\<close> or neither credential variable is set, the
  request (whatever its uploads and gallery URL, so also with none) is answered with the
  three synthetic results, all of status success, the session id and
  \<^verbatim>\<open>demoMode: true\<close>; nothing is written to the store and no provider call is made.
\<close>

theorem demo_mode_returns_synthetic_results:
  assumes "DEMO_MODE env = Some ''true'' \<or> (\<not> truthy (FAL_KEY env) \<and> \<not> truthy (FAL_API_KEY env))"
  shows "POST env wd store (Inr formData) =
           Some \<lparr>response = Json \<lparr>body_results = demo_results,
                                   body_sessionId = sessionId formData,
                                   body_demoMode = Some True\<rparr>,
                 store_left = store, batch_events = []\<rparr>
         \<and> provider_calls [] = 0
         \<and> length demo_results = 3
         \<and> list_all (\<lambda>r. status r = Success) demo_results"
proof -
  have "DEMO_MODE env = Some ''true'' \<or> or_else (or_opt (FAL_KEY env) (FAL_API_KEY env)) [] = []"
    using assms by (cases "FAL_KEY env"; cases "FAL_API_KEY env") (auto split: if_splits)
  then have "POST env wd store (Inr formData) =
           Some \<lparr>response = Json \<lparr>body_results = demo_results,
                                   body_sessionId = sessionId formData,
                                   body_demoMode = Some True\<rparr>,
                 store_left = store, batch_events = []\<rparr>"
    by (auto simp: POST_def Let_def)
  then show ?thesis
    by (simp add: demo_results_eval)
qed


theorem demo_mode_returns_synthetic_results_witness:
  "\<not> truthy (FAL_KEY no_env) \<and> \<not> truthy (FAL_API_KEY no_env)
   \<and> POST no_env quiet_world Map.empty (Inr empty_form) =
       Some \<lparr>response = Json \<lparr>body_results = demo_results,
                               body_sessionId = Some ''session_1'',
                               body_demoMode = Some True\<rparr>,
             store_left = Map.empty, batch_events = []\<rparr>
   \<and> DEMO_MODE (no_env\<lparr>DEMO_MODE := Some ''true'', FAL_KEY := Some ''key-0123456789''\<rparr>) = Some ''true''
   \<and> POST (no_env\<lparr>DEMO_MODE := Some ''true'', FAL_KEY := Some ''key-0123456789''\<rparr>)
         quiet_world Map.empty (Inr empty_form) =
       Some \<lparr>response = Json \<lparr>body_results = demo_results,
                               body_sessionId = Some ''session_1'',
                               body_demoMode = Some True\<rparr>,
             store_left = Map.empty, batch_events = []\<rparr>"
  using demo_mode_returns_synthetic_results[of no_env quiet_world Map.empty empty_form]
    demo_mode_returns_synthetic_results
      [of "no_env\<lparr>DEMO_MODE := Some ''true'', FAL_KEY := Some ''key-0123456789''\<rparr>"
          quiet_world Map.empty empty_form]
  by (simp add: no_env_def empty_form_def)


section \<open>The batch scheduler\<close>

subsection \<open>Windows as the specification cuts them\<close>

lemma chunks_Nil [simp]: "chunks c [] = []"
  by (simp add: chunks.simps)

lemma chunks_step: "xs \<noteq> [] \<Longrightarrow> 0 < c \<Longrightarrow> chunks c xs = take c xs # chunks c (drop c xs)"
  by (subst chunks.simps) simp

lemma concat_chunks: "0 < c \<Longrightarrow> concat (chunks c xs) = xs"
proof (induction "length xs" arbitrary: xs rule: less_induct)
  case less
  show ?case
  proof (cases "xs = []")
    case True
    then show ?thesis by simp
  next
    case False
    with less.prems have "length (drop c xs) < length xs" by simp
    from less.hyps[OF this less.prems] False less.prems show ?thesis
      by (simp add: chunks_step[of xs c])
  qed
qed

lemma ceil_div_step: "0 < n \<Longrightarrow> 0 < c \<Longrightarrow> (n + c - 1) div c = Suc ((n - 1) div c)"
proof -
  assume n: "0 < n" and c: "0 < c"
  obtain m where m: "n = Suc m"
    using n by (cases n) auto
  have "(Suc m + c - 1) div c = (m + c) div c"
    by simp
  also have "\<dots> = Suc (m div c)"
    using c div_add_self2[of c m] by simp
  finally show ?thesis
    using m by simp
qed

lemma length_chunks: "0 < c \<Longrightarrow> length (chunks c xs) = (length xs + c - 1) div c"
proof (induction "length xs" arbitrary: xs rule: less_induct)
  case less
  show ?case
  proof (cases "xs = []")
    case True
    with less.prems show ?thesis by simp
  next
    case False
    with less.prems have shorter: "length (drop c xs) < length xs" by simp
    have ih: "length (chunks c (drop c xs)) = (length xs - c + c - 1) div c"
      using less.hyps[OF shorter less.prems] by simp
    have step: "(length xs + c - 1) div c = Suc ((length xs - 1) div c)"
      using False less.prems ceil_div_step[of "length xs" c] by simp
    show ?thesis
    proof (cases "c \<le> length xs")
      case True
      with ih have "length (chunks c (drop c xs)) = (length xs - 1) div c" by simp
      with step False less.prems show ?thesis
        by (simp add: chunks_step[of xs c])
    next
      case short: False
      then have "drop c xs = []" and "(length xs - 1) div c = 0" by simp_all
      with step False less.prems show ?thesis
        by (simp add: chunks_step[of xs c])
    qed
  qed
qed

lemma chunk_sizes:
  "0 < c \<Longrightarrow> w \<in> set (chunks c xs) \<Longrightarrow> 0 < length w \<and> length w \<le> c"
proof (induction "length xs" arbitrary: xs rule: less_induct)
  case less
  show ?case
  proof (cases "xs = []")
    case True
    with less.prems show ?thesis by simp
  next
    case False
    with less.prems have shorter: "length (drop c xs) < length xs" by simp
    from less.prems False have "w = take c xs \<or> w \<in> set (chunks c (drop c xs))"
      by (simp add: chunks_step[of xs c])
    then show ?thesis
    proof
      assume "w = take c xs"
      with False less.prems show ?thesis by simp
    next
      assume "w \<in> set (chunks c (drop c xs))"
      with less.hyps[OF shorter less.prems(1)] show ?thesis by simp
    qed
  qed
qed

lemma full_chunks:
  "0 < c \<Longrightarrow> w \<in> set (butlast (chunks c xs)) \<Longrightarrow> length w = c"
proof (induction "length xs" arbitrary: xs rule: less_induct)
  case less
  show ?case
  proof (cases "xs = []")
    case True
    with less.prems show ?thesis by simp
  next
    case False
    with less.prems have shorter: "length (drop c xs) < length xs" by simp
    show ?thesis
    proof (cases "chunks c (drop c xs) = []")
      case True
      with less.prems False show ?thesis by (simp add: chunks_step[of xs c])
    next
      case more: False
      then have "drop c xs \<noteq> []" by auto
      then have long: "c \<le> length xs" by simp
      from less.prems False more
      have "w = take c xs \<or> w \<in> set (butlast (chunks c (drop c xs)))"
        by (simp add: chunks_step[of xs c])
      then show ?thesis
      proof
        assume "w = take c xs"
        with long show ?thesis by simp
      next
        assume "w \<in> set (butlast (chunks c (drop c xs)))"
        with less.hyps[OF shorter less.prems(1)] show ?thesis by simp
      qed
    qed
  qed
qed


lemma take_enumerate: "take c (enumerate i xs) = enumerate i (take c xs)"
  by (induction xs arbitrary: i c) (auto simp: take_Cons split: nat.splits)

lemma drop_enumerate: "drop c (enumerate i xs) = enumerate (i + c) (drop c xs)"
  by (induction xs arbitrary: i c) (auto simp: drop_Cons split: nat.splits)

lemma shifted_enumerate:
  "map (\<lambda>(j, x). F (i + j) x) (zip [0..<length xs] xs) = map (\<lambda>(t, x). F t x) (enumerate i xs)"
proof (rule nth_equalityI)
  show "length (map (\<lambda>(j, x). F (i + j) x) (zip [0..<length xs] xs)) =
        length (map (\<lambda>(t, x). F t x) (enumerate i xs))"
    by simp
next
  fix k
  assume "k < length (map (\<lambda>(j, x). F (i + j) x) (zip [0..<length xs] xs))"
  then have k: "k < length xs" by simp
  then show "map (\<lambda>(j, x). F (i + j) x) (zip [0..<length xs] xs) ! k =
             map (\<lambda>(t, x). F t x) (enumerate i xs) ! k"
    by (simp add: nth_enumerate_eq)
qed

subsection \<open>The order of completion\<close>

lemma pick_order_Nil [simp]: "pick_order cs [] = []"
  by (simp add: pick_order.simps)

lemma mset_pick_order: "mset (pick_order cs xs) = mset xs"
proof (induction "length xs" arbitrary: cs xs rule: less_induct)
  case less
  show ?case
  proof (cases "xs = []")
    case True
    then show ?thesis by simp
  next
    case False
    define k where "k = (case cs of [] \<Rightarrow> 0 | c # _ \<Rightarrow> c mod length xs)"
    have k: "k < length xs"
      using False by (cases cs) (simp_all add: k_def)
    let ?rest = "take k xs @ drop (Suc k) xs"
    have "length ?rest < length xs"
      using k by simp
    then have ih: "mset (pick_order (tl cs) ?rest) = mset ?rest"
      by (rule less.hyps)
    have unfold: "pick_order cs xs = xs ! k # pick_order (tl cs) ?rest"
      using False by (subst pick_order.simps) (simp add: k_def Let_def)
    have "mset xs = mset (take k xs @ xs ! k # drop (Suc k) xs)"
      by (rule arg_cong[where f = mset]) (rule id_take_nth_drop[OF k])
    also have "\<dots> = add_mset (xs ! k) (mset ?rest)"
      by simp
    finally show ?thesis
      unfolding unfold using ih by simp
  qed
qed

lemma length_pick_order [simp]: "length (pick_order cs xs) = length xs"
  using mset_pick_order[of cs xs] by (metis size_mset)

subsection \<open>One window\<close>

lemma finished_finish_all [simp]: "finished (finish_all sid rs s) = map fst rs"
  by (induction rs arbitrary: s) (auto simp: Let_def)

lemma all_finished_finish_all [simp]: "list_all is_finished (finish_all sid rs s)"
  by (induction rs arbitrary: s) (auto simp: Let_def)

lemma length_finish_all [simp]: "length (finish_all sid rs s) = length rs"
  by (induction rs arbitrary: s) (auto simp: Let_def)

lemma outcomes_enumerate:
  "map (\<lambda>(j, img). processImageWithRetry api (nw (i + j)) (url img) (image_filename img))
     (zip [0..<length batch] batch) = map (task_outcome api nw) (enumerate i batch)"
  unfolding task_outcome_def
  by (rule shifted_enumerate
        [of "\<lambda>t img. processImageWithRetry api (nw t) (url img) (image_filename img)"])

lemma run_window_events:
  "window_events (run_window api nw ch sid i batch store) =
     (Launched batch, foldl (\<lambda>s img. start_task sid img s) store batch)
       # finish_all sid (pick_order ch (map (task_outcome api nw) (enumerate i batch)))
           (foldl (\<lambda>s img. start_task sid img s) store batch)"
  unfolding run_window_def Let_def outcomes_enumerate by simp

lemma run_window_results:
  "batchResults (run_window api nw ch sid i batch store) =
     map (task_result api nw) (enumerate i batch)"
  unfolding run_window_def Let_def outcomes_enumerate
  by (simp add: task_result_def[abs_def])

subsection \<open>The loop\<close>

lemma process_from_done:
  "\<not> i < length images \<Longrightarrow>
   process_from api nw sc sid c images w i store = Some \<lparr>events = [], response_results = []\<rparr>"
  by (subst process_from.simps) simp

lemma process_from_step:
  assumes "i < length images" and "0 < c"
  shows "process_from api nw sc sid c images w i store =
     (case process_from api nw sc sid c images (Suc w) (i + c)
             (store_after store
                (window_events (run_window api nw (sc w) sid i (take c (drop i images)) store))) of
        None \<Rightarrow> None
      | Some rest \<Rightarrow>
          Some \<lparr>events =
                  window_events (run_window api nw (sc w) sid i (take c (drop i images)) store)
                    @ events rest,
                response_results =
                  batchResults (run_window api nw (sc w) sid i (take c (drop i images)) store)
                    @ response_results rest\<rparr>)"
  using assms by (subst process_from.simps) (simp add: Let_def slice_def)

lemma process_from_returns:
  "0 < c \<Longrightarrow> \<exists>run. process_from api nw sc sid c images w i store = Some run"
proof (induction "length images - i" arbitrary: i w store rule: less_induct)
  case less
  show ?case
  proof (cases "i < length images")
    case False
    then show ?thesis by (simp add: process_from_done)
  next
    case True
    let ?store = "store_after store
        (window_events (run_window api nw (sc w) sid i (take c (drop i images)) store))"
    from True less.prems have "length images - (i + c) < length images - i"
      by simp
    from less.hyps[OF this less.prems, of "Suc w" ?store]
    obtain rest where "process_from api nw sc sid c images (Suc w) (i + c) ?store = Some rest"
      by blast
    then show ?thesis
      by (simp add: process_from_step[OF True less.prems])
  qed
qed

lemma process_from_results:
  assumes "process_from api nw sc sid c images w i store = Some run" and "0 < c"
  shows "response_results run = map (task_result api nw) (drop i (enumerate 0 images))"
  using assms
proof (induction "length images - i" arbitrary: i w store run rule: less_induct)
  case less
  show ?case
  proof (cases "i < length images")
    case False
    with less.prems show ?thesis by (auto simp: process_from_done)
  next
    case True
    let ?rw = "run_window api nw (sc w) sid i (take c (drop i images)) store"
    let ?store = "store_after store (window_events ?rw)"
    from process_from_returns[OF less.prems(2)]
    obtain rest where rest: "process_from api nw sc sid c images (Suc w) (i + c) ?store = Some rest"
      by blast
    from True less.prems have smaller: "length images - (i + c) < length images - i"
      by simp
    have ih: "response_results rest = map (task_result api nw) (drop (i + c) (enumerate 0 images))"
      by (rule less.hyps[OF smaller rest less.prems(2)])
    have run: "response_results run = batchResults ?rw @ response_results rest"
      using less.prems(1) rest by (simp add: process_from_step[OF True less.prems(2)]) auto
    have "batchResults ?rw = map (task_result api nw) (take c (drop i (enumerate 0 images)))"
      by (simp add: run_window_results take_enumerate drop_enumerate)
    moreover have "drop (i + c) (enumerate 0 images) = drop c (drop i (enumerate 0 images))"
      by (simp add: add.commute)
    ultimately show ?thesis
      unfolding run ih
      by (metis append_take_drop_id map_append)
  qed
qed


subsection \<open>The snapshots of a window\<close>

lemma store_after_Nil [simp]: "store_after s [] = s"
  by (simp add: store_after_def)

lemma store_after_Cons [simp]: "store_after s ((e, s') # evs) = store_after s' evs"
  by (simp add: store_after_def)

lemma store_after_append [simp]:
  "store_after s (xs @ ys) = store_after (store_after s xs) ys"
  by (induction xs arbitrary: s) auto

lemma trace_ok_append:
  "trace_ok sid n rs (xs @ ys) = (trace_ok sid n rs xs \<and> trace_ok sid n (rs @ finished xs) ys)"
proof (induction xs arbitrary: rs)
  case Nil
  show ?case by simp
next
  case (Cons x xs)
  obtain e s where x: "x = (e, s)" by (cases x)
  show ?case
    by (cases e) (auto simp: x Cons.IH split: option.splits)
qed

lemma launched_store:
  "store sid = Some p \<Longrightarrow>
   \<exists>cur. foldl (\<lambda>s img. start_task sid img s) store batch sid = Some (p\<lparr>current := cur\<rparr>)"
proof (induction batch arbitrary: store p)
  case Nil
  then show ?case
    by (intro exI[of _ "current p"]) simp
next
  case (Cons img batch)
  have "start_task sid img store sid = Some (p\<lparr>current := image_filename img\<rparr>)"
    using Cons.prems by (simp add: start_task_def)
  from Cons.IH[of "start_task sid img store" "p\<lparr>current := image_filename img\<rparr>", OF this]
  show ?case by auto
qed

lemma finish_task_snapshot:
  assumes "s sid = Some p" and "snapshot_ok n p" and "completed p < n"
  shows "\<exists>q. finish_task sid r s sid = Some q \<and> snapshot_ok n q
           \<and> results q = results p @ [r] \<and> completed q = Suc (completed p)"
  using assms by (auto simp: finish_task_def snapshot_ok_def Let_def)

lemma finish_all_trace:
  assumes "s sid = Some p" and "snapshot_ok n p" and "completed p + length rs \<le> n"
  shows "trace_ok sid n (results p) (finish_all sid rs s)
         \<and> (\<exists>q. store_after s (finish_all sid rs s) sid = Some q \<and> snapshot_ok n q
                \<and> results q = results p @ map fst rs
                \<and> completed q = completed p + length rs)"
  using assms
proof (induction rs arbitrary: s p)
  case Nil
  then show ?case by simp
next
  case (Cons x rs)
  obtain r l where x: "x = (r, l)" by (cases x)
  from Cons.prems have "completed p < n" by simp
  from finish_task_snapshot[of s sid p n r, OF Cons.prems(1,2) this]
  obtain q where q: "finish_task sid r s sid = Some q" "snapshot_ok n q"
      "results q = results p @ [r]" "completed q = Suc (completed p)"
    by blast
  from Cons.prems(3) q(4) have "completed q + length rs \<le> n" by simp
  from Cons.IH[of "finish_task sid r s" q, OF q(1,2) this] q show ?case
    by (auto simp: x Let_def)
qed

lemma trace_ok_sorted:
  "trace_ok sid n rs evs \<Longrightarrow>
   sorted (map (completed_at sid) evs) \<and> (\<forall>e \<in> set evs. length rs \<le> completed_at sid e)"
proof (induction evs arbitrary: rs)
  case Nil
  show ?case by simp
next
  case (Cons x evs)
  obtain e s where x: "x = (e, s)" by (cases x)
  show ?case
  proof (cases e)
    case (Launched b)
    with Cons.prems x obtain p where p: "s sid = Some p" "snapshot_ok n p" "results p = rs"
        "trace_ok sid n rs evs"
      by (auto split: option.splits)
    from Cons.IH[OF p(4)] p(1,2,3) show ?thesis
      by (auto simp: x completed_at_def snapshot_ok_def)
  next
    case (Finished r l)
    with Cons.prems x obtain p where p: "s sid = Some p" "snapshot_ok n p" "results p = rs @ [r]"
        "trace_ok sid n (rs @ [r]) evs"
      by (auto split: option.splits)
    from Cons.IH[OF p(4)] p(1,2,3) show ?thesis
      by (fastforce simp: x completed_at_def snapshot_ok_def)
  qed
qed


subsection \<open>The snapshots and the windows of the loop\<close>

lemma finished_append [simp]: "finished (xs @ ys) = finished xs @ finished ys"
proof (induction xs)
  case Nil
  show ?case by simp
next
  case (Cons x xs)
  obtain e s where x: "x = (e, s)" by (cases x)
  show ?case by (cases e) (simp_all add: x Cons.IH)
qed

lemma skip_finished: "list_all is_finished F \<Longrightarrow> windows_seen (F @ R) = windows_seen R"
proof (induction F)
  case Nil
  show ?case by simp
next
  case (Cons x F)
  obtain e s where x: "x = (e, s)" by (cases x)
  from Cons show ?case by (cases e) (simp_all add: x)
qed

lemma takeWhile_finished:
  "list_all is_finished F \<Longrightarrow> R = [] \<or> \<not> is_finished (hd R) \<Longrightarrow>
   takeWhile is_finished (F @ R) = F"
  by (cases R) (simp_all add: list_all_iff)

lemma chunks_map: "chunks c (map f xs) = map (map f) (chunks c xs)"
proof (induction "length xs" arbitrary: xs rule: less_induct)
  case less
  show ?case
  proof (cases "xs = [] \<or> c = 0")
    case True
    then show ?thesis by (auto simp: chunks.simps)
  next
    case False
    then have "length (drop c xs) < length xs" by simp
    from less.hyps[OF this] False show ?thesis
      by (simp add: chunks_step[of xs c] chunks_step[of "map f xs" c] take_map drop_map)
  qed
qed

lemma window_length:
  "i < length images \<Longrightarrow> 0 < c \<Longrightarrow>
   0 < length (take c (drop i images)) \<and> i + length (take c (drop i images)) = min (i + c) (length images)"
  by auto

lemma process_from_trace:
  assumes "process_from api nw sc sid c images w i store = Some run" and "0 < c"
    and "store sid = Some p" and "snapshot_ok (length images) p"
    and "completed p = min i (length images)"
  shows "trace_ok sid (length images) (results p) (events run)
         \<and> (\<exists>q. store_after store (events run) sid = Some q \<and> snapshot_ok (length images) q
                \<and> completed q = length images
                \<and> results q = results p @ finished (events run))"
  using assms
proof (induction "length images - i" arbitrary: i w store run p rule: less_induct)
  case less
  let ?n = "length images"
  show ?case
  proof (cases "i < ?n")
    case False
    with less.prems show ?thesis by (auto simp: process_from_done)
  next
    case True
    let ?batch = "take c (drop i images)"
    let ?rw = "run_window api nw (sc w) sid i ?batch store"
    let ?L = "foldl (\<lambda>s img. start_task sid img s) store ?batch"
    let ?rs = "pick_order (sc w) (map (task_outcome api nw) (enumerate i ?batch))"
    let ?F = "finish_all sid ?rs ?L"
    have W: "window_events ?rw = (Launched ?batch, ?L) # ?F"
      by (rule run_window_events)
    from process_from_returns[OF less.prems(2)]
    obtain rest where rest:
      "process_from api nw sc sid c images (Suc w) (i + c) (store_after store (window_events ?rw)) = Some rest"
      by blast
    have run: "events run = window_events ?rw @ events rest"
      using less.prems(1) rest by (simp add: process_from_step[OF True less.prems(2)]) auto
    from launched_store[where store = store and sid = sid and p = p and batch = ?batch,
           OF less.prems(3)]
    obtain cur where L: "?L sid = Some (p\<lparr>current := cur\<rparr>)"
      by blast
    from less.prems(4,5) True have ok': "snapshot_ok ?n (p\<lparr>current := cur\<rparr>)"
      by (simp add: snapshot_ok_def)
    from window_length[OF True less.prems(2)] less.prems(5) True
    have fits: "completed (p\<lparr>current := cur\<rparr>) + length ?rs \<le> ?n"
      and after: "completed p + length ?rs = min (i + c) ?n"
      by simp_all
    from finish_all_trace[where s = ?L and sid = sid and p = "p\<lparr>current := cur\<rparr>"
           and n = ?n and rs = ?rs, OF L ok' fits]
    obtain q1 where trF: "trace_ok sid ?n (results p) ?F"
      and q1: "store_after ?L ?F sid = Some q1" "snapshot_ok ?n q1"
        "results q1 = results p @ map fst ?rs" "completed q1 = completed p + length ?rs"
      by auto
    have store': "store_after store (window_events ?rw) sid = Some q1"
      using q1(1) by (simp add: W)
    from True less.prems(2) have smaller: "?n - (i + c) < ?n - i"
      by simp
    from q1(4) after have "completed q1 = min (i + c) ?n"
      by simp
    from less.hyps[OF smaller rest less.prems(2) store' q1(2) this]
    obtain q where trR: "trace_ok sid ?n (results q1) (events rest)"
      and q: "store_after (store_after store (window_events ?rw)) (events rest) sid = Some q"
        "snapshot_ok ?n q" "completed q = ?n" "results q = results q1 @ finished (events rest)"
      by auto
    have "trace_ok sid ?n (results p) (events run)"
      using trF trR L ok' q1(3) by (simp add: run W trace_ok_append)
    moreover have "store_after store (events run) sid = Some q"
      using q(1) by (simp add: run)
    moreover have "results q = results p @ finished (events run)"
      using q(4) q1(3) by (simp add: run W)
    ultimately show ?thesis
      using q(2,3) by blast
  qed
qed

lemma process_from_windows:
  assumes "process_from api nw sc sid c images w i store = Some run" and "0 < c"
  shows "map (\<lambda>(b, rs). (b, mset rs)) (windows_seen (events run)) =
           map (\<lambda>ch. (map snd ch, mset (map (task_result api nw) ch)))
             (chunks c (drop i (enumerate 0 images)))
         \<and> (events run = [] \<or> \<not> is_finished (hd (events run)))
         \<and> mset (finished (events run)) = mset (response_results run)"
  using assms
proof (induction "length images - i" arbitrary: i w store run rule: less_induct)
  case less
  let ?n = "length images"
  show ?case
  proof (cases "i < ?n")
    case False
    with less.prems show ?thesis by (auto simp: process_from_done)
  next
    case True
    let ?batch = "take c (drop i images)"
    let ?rw = "run_window api nw (sc w) sid i ?batch store"
    let ?L = "foldl (\<lambda>s img. start_task sid img s) store ?batch"
    let ?rs = "pick_order (sc w) (map (task_outcome api nw) (enumerate i ?batch))"
    let ?F = "finish_all sid ?rs ?L"
    let ?E = "drop i (enumerate 0 images)"
    have W: "window_events ?rw = (Launched ?batch, ?L) # ?F"
      by (rule run_window_events)
    from process_from_returns[OF less.prems(2)]
    obtain rest where rest:
      "process_from api nw sc sid c images (Suc w) (i + c) (store_after store (window_events ?rw)) = Some rest"
      by blast
    have run: "events run = window_events ?rw @ events rest"
      "response_results run = batchResults ?rw @ response_results rest"
      using less.prems(1) rest by (auto simp: process_from_step[OF True less.prems(2)])
    from True less.prems(2) have smaller: "?n - (i + c) < ?n - i"
      by simp
    from less.hyps[OF smaller rest less.prems(2)]
    have ih: "map (\<lambda>(b, rs). (b, mset rs)) (windows_seen (events rest)) =
           map (\<lambda>ch. (map snd ch, mset (map (task_result api nw) ch)))
             (chunks c (drop (i + c) (enumerate 0 images)))"
      and first: "events rest = [] \<or> \<not> is_finished (hd (events rest))"
      and perm: "mset (finished (events rest)) = mset (response_results rest)"
      by auto
    have E: "?E \<noteq> []"
      using True by simp
    have head: "take c ?E = enumerate i ?batch"
      by (simp add: take_enumerate drop_enumerate)
    have tail: "drop c ?E = drop (i + c) (enumerate 0 images)"
      by (simp add: add.commute)
    have cut: "chunks c ?E = enumerate i ?batch # chunks c (drop (i + c) (enumerate 0 images))"
      using chunks_step[OF E less.prems(2)] head tail by simp
    have "mset (map fst ?rs) = image_mset fst (mset ?rs)"
      by simp
    also have "\<dots> = image_mset fst (mset (map (task_outcome api nw) (enumerate i ?batch)))"
      by (simp only: mset_pick_order)
    also have "\<dots> = mset (map (task_result api nw) (enumerate i ?batch))"
      by (simp add: task_result_def[abs_def] image_mset.compositionality comp_def)
    finally have results:
      "mset (map fst ?rs) = mset (map (task_result api nw) (enumerate i ?batch))" .
    have seen: "windows_seen (events run) = (?batch, map fst ?rs) # windows_seen (events rest)"
      by (simp add: run W takeWhile_finished[OF _ first] skip_finished)
    have "mset (finished (events run)) = mset (response_results run)"
      using perm results by (simp add: run W run_window_results)
    moreover have "\<not> is_finished (hd (events run))"
      by (simp add: run W)
    moreover have "map (\<lambda>(b, rs). (b, mset rs)) (windows_seen (events run)) =
           map (\<lambda>ch. (map snd ch, mset (map (task_result api nw) ch))) (chunks c ?E)"
      unfolding seen cut using ih results by simp
    ultimately show ?thesis
      by blast
  qed
qed

lemma trace_ok_observed: "trace_ok sid n rs evs \<Longrightarrow> list_all (observed_ok sid n) evs"
proof (induction evs arbitrary: rs)
  case Nil
  show ?case by simp
next
  case (Cons x evs)
  obtain e s where x: "x = (e, s)" by (cases x)
  from Cons.prems x obtain p rs' where p: "s sid = Some p" "snapshot_ok n p"
      and tail: "trace_ok sid n rs' evs"
    by (cases e) (auto split: option.splits)
  have "observed_ok sid n x"
    using p by (simp add: observed_ok_def x)
  with Cons.IH[OF tail] show ?case
    by simp
qed

lemma trace_ok_first:
  "trace_ok sid n [] evs \<Longrightarrow> evs \<noteq> [] \<Longrightarrow> \<not> is_finished (hd evs) \<Longrightarrow>
   completed_at sid (hd evs) = 0"
proof -
  assume tr: "trace_ok sid n [] evs" and ne: "evs \<noteq> []" and first: "\<not> is_finished (hd evs)"
  from ne obtain e s rest where evs: "evs = (e, s) # rest"
    by (cases evs) auto
  with first obtain b where "e = Launched b"
    by (cases e) auto
  with tr evs show ?thesis
    by (auto simp: completed_at_def snapshot_ok_def split: option.splits)
qed

lemma process_from_first:
  assumes "process_from api nw sc sid c images w i store = Some run"
    and "0 < c" and "i < length images"
  shows "events run \<noteq> [] \<and> \<not> is_finished (hd (events run))"
proof -
  from process_from_returns[OF assms(2)]
  obtain rest where
    "process_from api nw sc sid c images (Suc w) (i + c)
       (store_after store (window_events
          (run_window api nw (sc w) sid i (take c (drop i images)) store))) = Some rest"
    by blast
  with assms(1) have
    "events run = window_events (run_window api nw (sc w) sid i (take c (drop i images)) store)
                    @ events rest"
    by (auto simp: process_from_step[OF assms(3,2)])
  then show ?thesis
    by (simp add: run_window_events)
qed

subsection \<open>The result of one task\<close>

lemma retry_resolved_value:
  "retryWithBackoff fn retries delay l = (Inr v, l') \<Longrightarrow> \<exists>k. fn k = Inr v"
proof (induction retries arbitrary: delay l)
  case 0
  then show ?case
    by (subst (asm) retryWithBackoff.simps) (auto split: sum.splits)
next
  case (Suc n)
  show ?case
  proof (cases "fn (calls l)")
    case (Inr a)
    with Suc.prems show ?thesis
      by (subst (asm) retryWithBackoff.simps) auto
  next
    case (Inl e)
    with Suc.prems have
      "retryWithBackoff fn n (delay * backoffMultiplier RETRY_CONFIG)
         (l\<lparr>calls := Suc (calls l), waits := waits l @ [delay]\<rparr>) = (Inr v, l')"
      by (subst (asm) retryWithBackoff.simps) simp
    then show ?thesis
      by (rule Suc.IH)
  qed
qed

lemma processImageWithRetry_result:
  "originalUrl (fst (processImageWithRetry api nw u f)) = u
   \<and> filename (fst (processImageWithRetry api nw u f)) = f
   \<and> (status (fst (processImageWithRetry api nw u f)) = Success
       \<or> status (fst (processImageWithRetry api nw u f)) = Error
         \<and> processedUrl (fst (processImageWithRetry api nw u f)) = u
         \<and> message (fst (processImageWithRetry api nw u f)) \<noteq> None)"
proof (cases "retryWithBackoff (\<lambda>k. removeWatermark api (nw k) u f)
                (maxRetries RETRY_CONFIG) (retryDelay RETRY_CONFIG) \<lparr>calls = 0, waits = []\<rparr>")
  case (Pair out l)
  then show ?thesis
    by (cases out) (simp_all add: processImageWithRetry_def)
qed

lemma processImageWithRetry_failing:
  assumes "\<forall>k. case removeWatermark api (nw k) u f of Inl e \<Rightarrow> True | Inr r \<Rightarrow> \<not> success r"
  shows "status (fst (processImageWithRetry api nw u f)) = Error
         \<and> processedUrl (fst (processImageWithRetry api nw u f)) = u"
proof (cases "retryWithBackoff (\<lambda>k. removeWatermark api (nw k) u f)
                (maxRetries RETRY_CONFIG) (retryDelay RETRY_CONFIG) \<lparr>calls = 0, waits = []\<rparr>")
  case (Pair out l)
  show ?thesis
  proof (cases out)
    case (Inl e)
    with Pair show ?thesis
      by (simp add: processImageWithRetry_def)
  next
    case (Inr r)
    with Pair retry_resolved_value[of "\<lambda>k. removeWatermark api (nw k) u f"]
    obtain k where k: "removeWatermark api (nw k) u f = Inr r"
      by blast
    have "\<not> success r"
      using assms[rule_format, of k] by (simp add: k)
    with Pair Inr show ?thesis
      by (simp add: processImageWithRetry_def)
  qed
qed

lemma fal_first_call_fails:
  assumes "provider api = ''fal''"
    and "\<not> success (removeWithFluxKontext api (nw 0) u f)"
  shows "status (fst (processImageWithRetry api nw u f)) = Error
         \<and> processedUrl (fst (processImageWithRetry api nw u f)) = u"
proof -
  have "removeWatermark api (nw (calls \<lparr>calls = 0, waits = []\<rparr>)) u f =
          Inr (removeWithFluxKontext api (nw 0) u f)"
    using assms(1) by (simp add: removeWatermark_def)
  from retry_resolved[of "\<lambda>k. removeWatermark api (nw k) u f", OF this] assms(2)
  show ?thesis
    by (simp add: processImageWithRetry_def)
qed

subsection \<open>The request\<close>

lemma fallback_nonempty: "fallback_images \<noteq> []"
  by (simp add: fallback_images_def)

lemma POST_batch:
  assumes "DEMO_MODE env \<noteq> Some ''true''"
    and "truthy (FAL_KEY env) \<or> truthy (FAL_API_KEY env)"
    and "resolve_images wd formData = Inr resolved"
    and "images = (if resolved = [] then fallback_images else resolved)"
    and "api = \<lparr>provider = ''fal'',
                 apiKey = or_else (or_opt (FAL_KEY env) (FAL_API_KEY env)) [],
                 endpoint = Some []\<rparr>"
    and "store1 = store(sessionId formData \<mapsto>
                    \<lparr>total = length images, completed = 0, current = [],
                     progress = ProgressProcessing, results = []\<rparr>)"
  shows "\<exists>run. process_from api (net wd) (sched wd) (sessionId formData)
                  concurrencyLimit images 0 0 store1 = Some run
             \<and> POST env wd store (Inr formData) =
                 Some \<lparr>response = Json \<lparr>body_results = response_results run,
                                         body_sessionId = sessionId formData,
                                         body_demoMode = None\<rparr>,
                       store_left = store_after store1 (events run),
                       batch_events = events run\<rparr>"
proof -
  have c: "0 < concurrencyLimit"
    by (simp add: concurrencyLimit_def)
  from process_from_returns[OF c]
  obtain run where run: "process_from api (net wd) (sched wd) (sessionId formData)
                  concurrencyLimit images 0 0 store1 = Some run"
    by blast
  have key: "or_else (or_opt (FAL_KEY env) (FAL_API_KEY env)) [] \<noteq> []"
    using assms(2) by (cases "FAL_KEY env"; cases "FAL_API_KEY env") auto
  have "POST env wd store (Inr formData) =
          Some \<lparr>response = Json \<lparr>body_results = response_results run,
                                  body_sessionId = sessionId formData,
                                  body_demoMode = None\<rparr>,
                store_left = store_after store1 (events run),
                batch_events = events run\<rparr>"
    using assms(1) key assms(3) run[unfolded assms(4,5,6)]
    unfolding POST_def Let_def assms(4,5,6)
    by simp
  with run show ?thesis
    by blast
qed


lemma chunks_nonempty: "xs \<noteq> [] \<Longrightarrow> 0 < c \<Longrightarrow> chunks c xs \<noteq> []"
  by (simp add: chunks_step[of xs c])

text \<open>
  C2. For a task list of \<open>N \<ge> 1\<close> images and a limit \<open>C \<ge> 1\<close> the loop returns, and its
  events show exactly the windows \<open>chunks C images\<close>, in input order: there are
  \<open>\<lceil>N / C\<rceil>\<close> of them, they make up the list, every window but the last has \<open>C\<close>
  tasks and the last has between 1 and \<open>C\<close>. The first event is a launch, and between
  the launch of a window and the next launch exactly the tasks of that window finish,
  in some order: a window is launched only when all tasks of the one before have
  finished. \<open>N\<close> tasks finish in all, and the response lists their \<open>N\<close> results in
  input order.
\<close>

theorem windows_are_sequential_chunks:
  assumes "images \<noteq> []" and "1 \<le> c"
  shows "\<exists>run. process_from api nw sc sid c images 0 0 store = Some run
     \<and> map fst (windows_seen (events run)) = chunks c images
     \<and> map (\<lambda>(b, rs). (b, mset rs)) (windows_seen (events run)) =
         map (\<lambda>ch. (map snd ch, mset (map (task_result api nw) ch)))
           (chunks c (enumerate 0 images))
     \<and> \<not> is_finished (hd (events run))
     \<and> length (chunks c images) = (length images + c - 1) div c
     \<and> concat (chunks c images) = images
     \<and> list_all (\<lambda>w. length w = c) (butlast (chunks c images))
     \<and> 0 < length (last (chunks c images)) \<and> length (last (chunks c images)) \<le> c
     \<and> length (finished (events run)) = length images
     \<and> response_results run = map (task_result api nw) (enumerate 0 images)"
proof -
  from assms(2) have c: "0 < c" by simp
  from process_from_returns[OF c]
  obtain run where run: "process_from api nw sc sid c images 0 0 store = Some run"
    by blast
  from process_from_windows[OF run c]
  have seen: "map (\<lambda>(b, rs). (b, mset rs)) (windows_seen (events run)) =
         map (\<lambda>ch. (map snd ch, mset (map (task_result api nw) ch)))
           (chunks c (enumerate 0 images))"
    and perm: "mset (finished (events run)) = mset (response_results run)"
    by simp_all
  have results: "response_results run = map (task_result api nw) (enumerate 0 images)"
    using process_from_results[OF run c] by simp
  have "map fst (windows_seen (events run)) =
        map fst (map (\<lambda>(b, rs). (b, mset rs)) (windows_seen (events run)))"
    by (simp add: case_prod_beta comp_def)
  also have "\<dots> = map (map snd) (chunks c (enumerate 0 images))"
    unfolding seen by (simp add: comp_def)
  also have "\<dots> = chunks c (map snd (enumerate 0 images))"
    by (simp only: chunks_map)
  finally have windows: "map fst (windows_seen (events run)) = chunks c images"
    by simp
  have first: "\<not> is_finished (hd (events run))"
    using process_from_first[OF run c] assms(1) by simp
  have "length (finished (events run)) = length (response_results run)"
    using perm by (metis size_mset)
  then have count: "length (finished (events run)) = length images"
    by (simp add: results)
  have "last (chunks c images) \<in> set (chunks c images)"
    using chunks_nonempty[OF assms(1) c] by simp
  from chunk_sizes[OF c this]
  have last: "0 < length (last (chunks c images)) \<and> length (last (chunks c images)) \<le> c" .
  have full: "list_all (\<lambda>w. length w = c) (butlast (chunks c images))"
    using full_chunks[OF c, of _ images] by (auto simp: list_all_iff)
  show ?thesis
    using run windows seen first length_chunks[OF c, of images] concat_chunks[OF c, of images]
      full last count results
    by blast
qed

theorem windows_are_sequential_chunks_witness:
  "three_images \<noteq> [] \<and> (1::nat) \<le> 2
   \<and> (\<exists>run. process_from fal_api mixed_net (\<lambda>w. [1]) (Some ''session_1'') 2 three_images 0 0
              Map.empty = Some run
        \<and> map fst (windows_seen (events run)) = [take 2 three_images, drop 2 three_images]
        \<and> length (windows_seen (events run)) = 2
        \<and> length (finished (events run)) = 3)"
proof -
  have ne: "three_images \<noteq> []" and le: "(1::nat) \<le> 2"
    by (simp_all add: three_images_def)
  have cut: "chunks 2 three_images = [take 2 three_images, drop 2 three_images]"
    by (simp add: chunks_step three_images_def)
  have len: "length three_images = 3"
    by (simp add: three_images_def)
  from windows_are_sequential_chunks[OF ne le, of fal_api mixed_net "\<lambda>w. [1]" "Some ''session_1''" Map.empty]
  obtain run where run:
    "process_from fal_api mixed_net (\<lambda>w. [1]) (Some ''session_1'') 2 three_images 0 0 Map.empty = Some run"
    "map fst (windows_seen (events run)) = chunks 2 three_images"
    "length (finished (events run)) = length three_images"
    by blast
  from run(2) have "length (map fst (windows_seen (events run))) = 2"
    by (simp only: cut) simp
  then have two: "length (windows_seen (events run)) = 2"
    by simp
  show ?thesis
    using ne le run two by (intro conjI exI[of _ run]) (simp_all add: cut len)
qed

text \<open>
  C3. For every request that starts a batch, every store, every behaviour of the
  network and every order in which the tasks of a window finish, POST returns and each
  snapshot of the session that can be observed while it runs satisfies the invariant:
  \<open>total\<close> is the number of tasks, \<open>length results = completed \<le> total\<close>, and
  \<open>completed = total\<close> only with status completed and an empty \<open>current\<close>. A launch
  leaves \<open>results\<close> as they are and a finished task appends its result, so
  \<open>completed\<close> never decreases; it is 0 at the first event and \<open>total\<close> at the last,
  where the status is completed and \<open>current\<close> is empty.
\<close>

theorem progress_snapshot_invariant:
  assumes "DEMO_MODE env \<noteq> Some ''true''"
    and "truthy (FAL_KEY env) \<or> truthy (FAL_API_KEY env)"
    and "resolve_images wd formData = Inr resolved"
    and "images = (if resolved = [] then fallback_images else resolved)"
    and "sid = sessionId formData"
  shows "\<exists>out q. POST env wd store (Inr formData) = Some out
      \<and> trace_ok sid (length images) [] (batch_events out)
      \<and> list_all (observed_ok sid (length images)) (batch_events out)
      \<and> sorted (map (completed_at sid) (batch_events out))
      \<and> completed_at sid (hd (batch_events out)) = 0
      \<and> store_left out = snd (last (batch_events out))
      \<and> store_left out sid = Some q
      \<and> total q = length images \<and> completed q = total q
      \<and> length (results q) = completed q
      \<and> progress q = ProgressCompleted \<and> current q = []"
proof -
  define api where "api = \<lparr>provider = ''fal'',
      apiKey = or_else (or_opt (FAL_KEY env) (FAL_API_KEY env)) [], endpoint = Some []\<rparr>"
  define p0 where "p0 = \<lparr>total = length images, completed = 0, current = [],
      progress = ProgressProcessing, results = []\<rparr>"
  define store1 where "store1 = store(sessionId formData \<mapsto> p0)"
  have c: "0 < concurrencyLimit"
    by (simp add: concurrencyLimit_def)
  have images: "images \<noteq> []"
    using assms(4) fallback_nonempty by simp
  from POST_batch[OF assms(1,2,3,4) api_def store1_def[unfolded p0_def]]
  obtain run where run: "process_from api (net wd) (sched wd) (sessionId formData)
                  concurrencyLimit images 0 0 store1 = Some run"
    and out: "POST env wd store (Inr formData) =
                 Some \<lparr>response = Json \<lparr>body_results = response_results run,
                                         body_sessionId = sessionId formData,
                                         body_demoMode = None\<rparr>,
                       store_left = store_after store1 (events run),
                       batch_events = events run\<rparr>"
    by blast
  have entry: "store1 (sessionId formData) = Some p0"
    by (simp add: store1_def)
  have ok0: "snapshot_ok (length images) p0"
    using images by (simp add: snapshot_ok_def p0_def)
  have start: "completed p0 = min 0 (length images)"
    by (simp add: p0_def)
  from process_from_trace[OF run c entry ok0 start]
  obtain q where tr: "trace_ok (sessionId formData) (length images) [] (events run)"
    and q: "store_after store1 (events run) (sessionId formData) = Some q"
      "snapshot_ok (length images) q" "completed q = length images"
    by (auto simp: p0_def)
  from process_from_first[OF run c] images
  have first: "events run \<noteq> []" "\<not> is_finished (hd (events run))"
    by simp_all
  have last: "store_after store1 (events run) = snd (last (events run))"
    using first(1) by (simp add: store_after_def)
  show ?thesis
    using out tr trace_ok_observed[OF tr] trace_ok_sorted[OF tr] trace_ok_first[OF tr first]
      q last
    by (simp add: assms(5) snapshot_ok_def)
qed


lemma key_env_facts:
  "DEMO_MODE key_env \<noteq> Some ''true''" "truthy (FAL_KEY key_env) \<or> truthy (FAL_API_KEY key_env)"
  "or_else (or_opt (FAL_KEY key_env) (FAL_API_KEY key_env)) [] = ''key-0123456789''"
  by (simp_all add: key_env_def no_env_def)

lemma empty_form_resolves: "resolve_images wd empty_form = Inr []"
  by (simp add: resolve_images_def empty_form_def)

theorem progress_snapshot_invariant_witness:
  "DEMO_MODE key_env \<noteq> Some ''true''
   \<and> truthy (FAL_KEY key_env)
   \<and> resolve_images mixed_world empty_form = Inr []
   \<and> sessionId empty_form = Some ''session_1''
   \<and> (\<exists>out q. POST key_env mixed_world Map.empty (Inr empty_form) = Some out
        \<and> trace_ok (Some ''session_1'') 2 [] (batch_events out)
        \<and> list_all (observed_ok (Some ''session_1'') 2) (batch_events out)
        \<and> sorted (map (completed_at (Some ''session_1'')) (batch_events out))
        \<and> completed_at (Some ''session_1'') (hd (batch_events out)) = 0
        \<and> store_left out = snd (last (batch_events out))
        \<and> store_left out (Some ''session_1'') = Some q
        \<and> total q = 2 \<and> completed q = total q
        \<and> length (results q) = completed q
        \<and> progress q = ProgressCompleted \<and> current q = [])"
proof -
  have sid: "Some ''session_1'' = sessionId empty_form"
    by (simp add: empty_form_def)
  have images: "fallback_images = (if ([]::image list) = [] then fallback_images else [])"
    by simp
  have two: "length fallback_images = 2"
    by (simp add: fallback_images_def)
  have key: "truthy (FAL_KEY key_env)"
    by (simp add: key_env_def no_env_def)
  note main = progress_snapshot_invariant
         [OF key_env_facts(1,2) empty_form_resolves[of mixed_world] images sid, of Map.empty,
          unfolded two]
  show ?thesis
    by (intro conjI key_env_facts(1) key empty_form_resolves sid[symmetric] main)
qed

text \<open>
  C4. Once the images of a request are resolved, POST answers with status 200 and one
  result per task, in input order, whatever the network does to each task and in
  whatever order the tasks finish: result \<open>j\<close> carries the URL and the name of task
  \<open>j\<close>, its status is success or error, an error result has the original URL as its
  processed URL and a message, and a task whose provider call fails has an error
  result. All tasks finish, and the session ends completed with the same results. A
  task whose provider call fails at every attempt, by a rejection or by a resolved
  failure, has an error result under any provider.
\<close>

theorem task_failure_never_aborts_batch:
  assumes "DEMO_MODE env \<noteq> Some ''true''"
    and "truthy (FAL_KEY env) \<or> truthy (FAL_API_KEY env)"
    and "resolve_images wd formData = Inr resolved"
    and "images = (if resolved = [] then fallback_images else resolved)"
    and "api = \<lparr>provider = ''fal'',
                 apiKey = or_else (or_opt (FAL_KEY env) (FAL_API_KEY env)) [],
                 endpoint = Some []\<rparr>"
  shows "\<exists>out rs q. POST env wd store (Inr formData) = Some out
      \<and> response out = Json \<lparr>body_results = rs, body_sessionId = sessionId formData,
                              body_demoMode = None\<rparr>
      \<and> rs = map (task_result api (net wd)) (enumerate 0 images)
      \<and> length rs = length images
      \<and> (\<forall>j < length images.
             originalUrl (rs ! j) = url (images ! j)
           \<and> filename (rs ! j) = image_filename (images ! j)
           \<and> (status (rs ! j) = Success
               \<or> status (rs ! j) = Error \<and> processedUrl (rs ! j) = url (images ! j)
                 \<and> message (rs ! j) \<noteq> None)
           \<and> (\<not> success (removeWithFluxKontext api (net wd j 0)
                           (url (images ! j)) (image_filename (images ! j))) \<longrightarrow>
                status (rs ! j) = Error \<and> processedUrl (rs ! j) = url (images ! j)))
      \<and> length (finished (batch_events out)) = length images
      \<and> store_left out (sessionId formData) = Some q
      \<and> completed q = length images \<and> progress q = ProgressCompleted
      \<and> mset (results q) = mset rs
      \<and> ((\<forall>k. case removeWatermark api' (nw k) u f of Inl e \<Rightarrow> True | Inr r \<Rightarrow> \<not> success r) \<longrightarrow>
            status (fst (processImageWithRetry api' nw u f)) = Error
          \<and> processedUrl (fst (processImageWithRetry api' nw u f)) = u)"
proof -
  define p0 where "p0 = \<lparr>total = length images, completed = 0, current = [],
      progress = ProgressProcessing, results = []\<rparr>"
  define store1 where "store1 = store(sessionId formData \<mapsto> p0)"
  define rs where "rs = map (task_result api (net wd)) (enumerate 0 images)"
  have c: "0 < concurrencyLimit"
    by (simp add: concurrencyLimit_def)
  have images: "images \<noteq> []"
    using assms(4) fallback_nonempty by simp
  from POST_batch[OF assms(1,2,3,4,5) store1_def[unfolded p0_def]]
  obtain run where run: "process_from api (net wd) (sched wd) (sessionId formData)
                  concurrencyLimit images 0 0 store1 = Some run"
    and out: "POST env wd store (Inr formData) =
                 Some \<lparr>response = Json \<lparr>body_results = response_results run,
                                         body_sessionId = sessionId formData,
                                         body_demoMode = None\<rparr>,
                       store_left = store_after store1 (events run),
                       batch_events = events run\<rparr>"
    by blast
  have results: "response_results run = rs"
    using process_from_results[OF run c] by (simp add: rs_def)
  have len: "length rs = length images"
    by (simp add: rs_def)
  have nth: "rs ! j = fst (processImageWithRetry api (net wd j) (url (images ! j))
                             (image_filename (images ! j)))" if "j < length images" for j
    using that by (simp add: rs_def nth_enumerate_eq task_result_def task_outcome_def)
  have fal: "provider api = ''fal''"
    by (simp add: assms(5))
  have each: "\<forall>j < length images.
             originalUrl (rs ! j) = url (images ! j)
           \<and> filename (rs ! j) = image_filename (images ! j)
           \<and> (status (rs ! j) = Success
               \<or> status (rs ! j) = Error \<and> processedUrl (rs ! j) = url (images ! j)
                 \<and> message (rs ! j) \<noteq> None)
           \<and> (\<not> success (removeWithFluxKontext api (net wd j 0)
                           (url (images ! j)) (image_filename (images ! j))) \<longrightarrow>
                status (rs ! j) = Error \<and> processedUrl (rs ! j) = url (images ! j))"
  proof (intro allI impI)
    fix j
    assume j: "j < length images"
    show "originalUrl (rs ! j) = url (images ! j)
           \<and> filename (rs ! j) = image_filename (images ! j)
           \<and> (status (rs ! j) = Success
               \<or> status (rs ! j) = Error \<and> processedUrl (rs ! j) = url (images ! j)
                 \<and> message (rs ! j) \<noteq> None)
           \<and> (\<not> success (removeWithFluxKontext api (net wd j 0)
                           (url (images ! j)) (image_filename (images ! j))) \<longrightarrow>
                status (rs ! j) = Error \<and> processedUrl (rs ! j) = url (images ! j))"
      unfolding nth[OF j]
      using processImageWithRetry_result[of api "net wd j" "url (images ! j)" "image_filename (images ! j)"]
        fal_first_call_fails[OF fal, of "net wd j" "url (images ! j)" "image_filename (images ! j)"]
      by blast
  qed
  have entry: "store1 (sessionId formData) = Some p0"
    by (simp add: store1_def)
  have ok0: "snapshot_ok (length images) p0"
    using images by (simp add: snapshot_ok_def p0_def)
  have start: "completed p0 = min 0 (length images)"
    by (simp add: p0_def)
  from process_from_trace[OF run c entry ok0 start]
  obtain q where q: "store_after store1 (events run) (sessionId formData) = Some q"
      "snapshot_ok (length images) q" "completed q = length images"
      "results q = finished (events run)"
    by (auto simp: p0_def)
  from process_from_windows[OF run c]
  have perm: "mset (finished (events run)) = mset rs"
    by (simp add: results)
  then have count: "length (finished (events run)) = length images"
    using len by (metis size_mset)
  have completed: "progress q = ProgressCompleted"
    using q(2,3) by (simp add: snapshot_ok_def)
  show ?thesis
    using out results len each count q(1,3,4) completed perm
      processImageWithRetry_failing[of api' nw u f]
    by (simp add: rs_def)
qed


lemma fal_result:
  assumes "provider api = ''fal''"
  shows "fst (processImageWithRetry api nw u f) =
     (if success (removeWithFluxKontext api (nw 0) u f)
         \<and> truthy (processedImageUrl (removeWithFluxKontext api (nw 0) u f))
      then \<lparr>originalUrl = u,
            processedUrl = the (processedImageUrl (removeWithFluxKontext api (nw 0) u f)),
            filename = f, status = Success, message = None,
            result_jobId = jobId (removeWithFluxKontext api (nw 0) u f)\<rparr>
      else \<lparr>originalUrl = u, processedUrl = u, filename = f, status = Error,
            message = Some (or_else (error (removeWithFluxKontext api (nw 0) u f))
                              ''Processing failed''),
            result_jobId = None\<rparr>)"
proof -
  have "removeWatermark api (nw (calls \<lparr>calls = 0, waits = []\<rparr>)) u f =
          Inr (removeWithFluxKontext api (nw 0) u f)"
    using assms by (simp add: removeWatermark_def)
  from retry_resolved[of "\<lambda>k. removeWatermark api (nw k) u f", OF this]
  show ?thesis
    by (simp add: processImageWithRetry_def)
qed

lemma landscape_fails:
  "removeWithFluxKontext fal_api offline (url (hd fallback_images)) ''sample_landscape.jpg'' =
     failure (JsError (''Cannot access image URL: '' @ url (hd fallback_images))) []"
  by (simp add: removeWithFluxKontext_def flux_try_def probe_image_def offline_def
      fallback_images_def startsWith_def failure_def)

lemma architecture_succeeds:
  "removeWithFluxKontext fal_api online (url (last fallback_images)) ''sample_architecture.jpg'' =
     \<lparr>success = True, processedImageUrl = Some ''https://fal.media/out.jpg'', error = None,
      jobId = Some ''req_1''\<rparr>"
  by (simp add: removeWithFluxKontext_def flux_try_def probe_image_def online_def
      fallback_images_def startsWith_def ok_def)

lemma fallback_results:
  "map (task_result fal_api mixed_net) (enumerate 0 fallback_images) =
     [landscape_failed, architecture_done]"
proof -
  have images: "fallback_images = [hd fallback_images, last fallback_images]"
    "image_filename (hd fallback_images) = ''sample_landscape.jpg''"
    "image_filename (last fallback_images) = ''sample_architecture.jpg''"
    by (simp_all add: fallback_images_def)
  have fal: "provider fal_api = ''fal''"
    by (simp add: fal_api_def)
  have nets: "mixed_net 0 0 = offline" "mixed_net (Suc 0) 0 = online"
    by (simp_all add: mixed_net_def)
  have first: "task_result fal_api mixed_net (0, hd fallback_images) = landscape_failed"
    by (simp add: task_result_def task_outcome_def fal_result[OF fal] images(2) nets
        landscape_fails landscape_failed_def failure_def)
  have second: "task_result fal_api mixed_net (Suc 0, last fallback_images) = architecture_done"
    by (simp add: task_result_def task_outcome_def fal_result[OF fal] images(3) nets
        architecture_succeeds architecture_done_def)
  have "enumerate 0 fallback_images = [(0, hd fallback_images), (Suc 0, last fallback_images)]"
    by (subst images(1)) simp
  then show ?thesis
    by (simp add: first second)
qed

theorem task_failure_never_aborts_batch_witness:
  "DEMO_MODE key_env \<noteq> Some ''true''
   \<and> truthy (FAL_KEY key_env)
   \<and> resolve_images mixed_world empty_form = Inr []
   \<and> \<not> success (removeWithFluxKontext fal_api (net mixed_world 0 0) (url (hd fallback_images))
                   (image_filename (hd fallback_images)))
   \<and> (\<exists>out q. POST key_env mixed_world Map.empty (Inr empty_form) = Some out
        \<and> response out = Json \<lparr>body_results = [landscape_failed, architecture_done],
                                body_sessionId = Some ''session_1'', body_demoMode = None\<rparr>
        \<and> status landscape_failed = Error
        \<and> processedUrl landscape_failed = url (hd fallback_images)
        \<and> length (finished (batch_events out)) = 2
        \<and> store_left out (Some ''session_1'') = Some q
        \<and> completed q = 2 \<and> progress q = ProgressCompleted
        \<and> mset (results q) = mset [landscape_failed, architecture_done])"
proof -
  have images: "fallback_images = (if ([]::image list) = [] then fallback_images else [])"
    by simp
  have two: "length fallback_images = 2"
    by (simp add: fallback_images_def)
  have key: "truthy (FAL_KEY key_env)"
    by (simp add: key_env_def no_env_def)
  have api: "fal_api = \<lparr>provider = ''fal'',
                 apiKey = or_else (or_opt (FAL_KEY key_env) (FAL_API_KEY key_env)) [],
                 endpoint = Some []\<rparr>"
    by (simp add: fal_api_def key_env_facts(3))
  have "image_filename (hd fallback_images) = ''sample_landscape.jpg''"
    by (simp add: fallback_images_def)
  then have fails: "\<not> success (removeWithFluxKontext fal_api (net mixed_world 0 0)
                   (url (hd fallback_images)) (image_filename (hd fallback_images)))"
    using landscape_fails by (simp add: mixed_world_def mixed_net_def)
  from task_failure_never_aborts_batch
         [OF key_env_facts(1,2) empty_form_resolves[of mixed_world] images api, of Map.empty]
  obtain out rs q where main:
      "POST key_env mixed_world Map.empty (Inr empty_form) = Some out"
      "response out = Json \<lparr>body_results = rs, body_sessionId = sessionId empty_form,
                              body_demoMode = None\<rparr>"
      "rs = map (task_result fal_api (net mixed_world)) (enumerate 0 fallback_images)"
      "length (finished (batch_events out)) = length fallback_images"
      "store_left out (sessionId empty_form) = Some q"
      "completed q = length fallback_images" "progress q = ProgressCompleted"
      "mset (results q) = mset rs"
    by blast
  have rs: "rs = [landscape_failed, architecture_done]"
    using main(3) fallback_results by (simp add: mixed_world_def)
  have sid: "sessionId empty_form = Some ''session_1''"
    by (simp add: empty_form_def)
  have "\<exists>out q. POST key_env mixed_world Map.empty (Inr empty_form) = Some out
        \<and> response out = Json \<lparr>body_results = [landscape_failed, architecture_done],
                                body_sessionId = Some ''session_1'', body_demoMode = None\<rparr>
        \<and> status landscape_failed = Error
        \<and> processedUrl landscape_failed = url (hd fallback_images)
        \<and> length (finished (batch_events out)) = 2
        \<and> store_left out (Some ''session_1'') = Some q
        \<and> completed q = 2 \<and> progress q = ProgressCompleted
        \<and> mset (results q) = mset [landscape_failed, architecture_done]"
    using main(1,2,4,5,6,7,8) unfolding rs sid two
    by (intro exI[of _ out] exI[of _ q]) (simp add: landscape_failed_def)
  then show ?thesis
    by (intro conjI key_env_facts(1) key empty_form_resolves fails)
qed


section \<open>The gallery route\<close>

lemma first_at_iff:
  "first_at images k = (\<forall>j<k. gallery_url (images ! j) \<noteq> gallery_url (images ! k))"
  by (auto simp: first_at_def list_all_iff)

subsection \<open>\<open>findIndex\<close> and the removal of duplicates\<close>

lemma findIndex_eq:
  "k < length xs \<Longrightarrow>
   (findIndex pred xs = int k) = (pred (xs ! k) \<and> (\<forall>j<k. \<not> pred (xs ! j)))"
proof (induction xs arbitrary: k)
  case Nil
  then show ?case by simp
next
  case (Cons x xs)
  show ?case
  proof (cases "pred x")
    case True
    then show ?thesis
      by (cases k) auto
  next
    case False
    show ?thesis
    proof (cases k)
      case 0
      with False show ?thesis
        by (simp add: Let_def)
    next
      case (Suc k')
      with Cons.prems have k': "k' < length xs" by simp
      have "(findIndex pred (x # xs) = int k) = (findIndex pred xs = int k')"
        using False Suc by (auto simp: Let_def)
      also have "\<dots> = (pred (xs ! k') \<and> (\<forall>j<k'. \<not> pred (xs ! j)))"
        by (rule Cons.IH[OF k'])
      also have "\<dots> = (pred ((x # xs) ! k) \<and> (\<forall>j<k. \<not> pred ((x # xs) ! j)))"
        using False Suc by (auto simp: nth_Cons split: nat.splits)
      finally show ?thesis .
    qed
  qed
qed

lemma keep_first:
  assumes "k < length images"
  shows "(int k = findIndex (\<lambda>i. gallery_url i = gallery_url (images ! k)) images) =
         first_at images k"
proof -
  have "(findIndex (\<lambda>i. gallery_url i = gallery_url (images ! k)) images = int k) =
        (gallery_url (images ! k) = gallery_url (images ! k)
         \<and> (\<forall>j<k. \<not> gallery_url (images ! j) = gallery_url (images ! k)))"
    by (rule findIndex_eq[OF assms])
  then show ?thesis
    unfolding first_at_iff by (simp add: eq_commute[of "int k"])
qed

lemma uniqueImages_nth:
  "uniqueImages images = map (nth images) (filter (first_at images) [0..<length images])"
proof -
  have zip: "zip [0..<length images] images = map (\<lambda>k. (k, images ! k)) [0..<length images]"
    by (rule nth_equalityI) simp_all
  have "filter ((\<lambda>(index, img). int index = findIndex (\<lambda>i. gallery_url i = gallery_url img) images)
                  \<circ> (\<lambda>k. (k, images ! k))) [0..<length images] =
        filter (first_at images) [0..<length images]"
    by (rule filter_cong) (simp_all add: keep_first)
  then have keep:
    "filter (\<lambda>(index, img). int index = findIndex (\<lambda>i. gallery_url i = gallery_url img) images)
       (map (\<lambda>k. (k, images ! k)) [0..<length images]) =
     map (\<lambda>k. (k, images ! k)) (filter (first_at images) [0..<length images])"
    by (simp only: filter_map)
  show ?thesis
    unfolding uniqueImages_def zip keep by (simp add: comp_def)
qed


lemma set_uniqueImages:
  "set (map gallery_url (uniqueImages images)) = set (map gallery_url images)"
proof
  show "set (map gallery_url (uniqueImages images)) \<subseteq> set (map gallery_url images)"
    by (auto simp: uniqueImages_nth)
next
  show "set (map gallery_url images) \<subseteq> set (map gallery_url (uniqueImages images))"
  proof
    fix u
    assume "u \<in> set (map gallery_url images)"
    then obtain k where k: "k < length images" "gallery_url (images ! k) = u"
      by (auto simp: in_set_conv_nth)
    define m where "m = (LEAST j. j < length images \<and> gallery_url (images ! j) = u)"
    have m: "m < length images \<and> gallery_url (images ! m) = u"
      unfolding m_def by (rule LeastI[of _ k]) (simp add: k)
    have least: "\<not> (j < length images \<and> gallery_url (images ! j) = u)" if "j < m" for j
      using that not_less_Least[of j "\<lambda>j. j < length images \<and> gallery_url (images ! j) = u"]
      by (simp add: m_def)
    have "first_at images m"
      unfolding first_at_iff using m least by (metis less_trans)
    with m have "m \<in> set (filter (first_at images) [0..<length images])"
      by simp
    then have "gallery_url (images ! m) \<in> set (map gallery_url (uniqueImages images))"
      unfolding uniqueImages_nth by (simp add: image_iff) blast
    with m show "u \<in> set (map gallery_url (uniqueImages images))"
      by simp
  qed
qed


lemma uniqueImages_Nil [simp]: "uniqueImages [] = []"
  by (simp add: uniqueImages_def)

lemma uniqueImages_empty_iff: "uniqueImages images = [] \<longleftrightarrow> images = []"
  using set_uniqueImages[of images] by (cases images) (auto simp del: set_map)



subsection \<open>The first two strategies\<close>













subsection \<open>Scripts without images\<close>








subsection \<open>The extraction and the route\<close>

















end
